theory Spec2Isabelle
  imports Complex_Main "HOL-Library.Word" "HOL-Library.List_Lexorder"
    "HOL-Library.Product_Lexorder"
begin

unbundle bit_operations_syntax


section \<open>Bytes and reads from the dictionary buffer\<close>

text \<open>
  The extension keeps the whole dictionary file in one allocated buffer and reads it
  through raw pointers. A pointer into the buffer is modelled by its byte offset from
  the start of the buffer, a \<open>NULL\<close> pointer by \<open>None\<close>. Every read is bounds
  checked in the model: a read that leaves the buffer has no defined value in C and is
  the value \<open>None\<close> here, so that each function after loading returns an \<open>option\<close>
  whose \<open>None\<close> means "the C code read outside the buffer".

  \<open>Size\<close> is PostgreSQL's \<open>size_t\<close>, 64 bits wide on the supported platforms. All
  sums of \<open>Size\<close> values below are sums of at most twenty values under \<open>2 ^ 35\<close>,
  which cannot wrap at 64 bits, so \<open>Size\<close> is modelled by \<open>nat\<close>. The 32-bit
  arithmetic of the source (\<open>wordCount + 1\<close>, the shifts of a packed entry) is done on
  \<open>32 word\<close> and wraps.
\<close>

type_synonym u8 = "8 word"
type_synonym u16 = "16 word"
type_synonym u32 = "32 word"
type_synonym bytes = "u8 list"

definition le32 :: "u8 \<Rightarrow> u8 \<Rightarrow> u8 \<Rightarrow> u8 \<Rightarrow> u32" where
  "le32 b0 b1 b2 b3 =
     word_of_nat (unat b0 + 256 * unat b1 + 65536 * unat b2 + 16777216 * unat b3)"

definition rd_u8 :: "bytes \<Rightarrow> nat \<Rightarrow> u8 option" where
  "rd_u8 buf off = (if off < length buf then Some (buf ! off) else None)"

definition rd_u32 :: "bytes \<Rightarrow> nat \<Rightarrow> u32 option" where
  "rd_u32 buf off =
     (if off + 4 \<le> length buf
      then Some (le32 (buf ! off) (buf ! (off + 1)) (buf ! (off + 2)) (buf ! (off + 3)))
      else None)"

definition rd_mem :: "bytes \<Rightarrow> nat \<Rightarrow> nat \<Rightarrow> bytes option" where
  "rd_mem buf off n = (if off + n \<le> length buf then Some (take n (drop off buf)) else None)"

section \<open>The loaded dictionary\<close>

record LemmaIsBinary =
  data :: bytes
  size' :: nat
  version :: u32
  stringPoolSize :: u32
  lemmaCount :: u32
  wordCount :: u32
  entryCount :: u32
  bigramCount :: u32
  stringPool :: nat
  lemmaOffsets :: nat
  lemmaLengths :: nat
  wordOffsets :: nat
  wordLengths :: nat
  entryOffsets :: nat
  entries :: nat
  bigramW1Offsets :: "nat option"
  bigramW1Lengths :: "nat option"
  bigramW2Offsets :: "nat option"
  bigramW2Lengths :: "nat option"
  bigramFreqs :: "nat option"

record LemmaIsEntry =
  lemmaIdx :: u32
  posCode :: u8
  caseCode :: u8
  genderCode :: u8
  numberCode :: u8

text \<open>
  \<open>IcelandicPos\<close> is declared in the generated header \<open>icelandic_fts_data.h\<close>, which
  is not part of the sources; the ten tags are the ones \<open>lemma_is_pos_from_code\<close> names.
\<close>

datatype IcelandicPos =
  POS_NO | POS_SO | POS_LO | POS_AO | POS_FS | POS_FN | POS_ST | POS_TO | POS_GR | POS_UH

section \<open>Loading\<close>

datatype load_error =
  UndefinedFile
  | InvalidAllocSize
  | BadMagic
  | UnsupportedVersion u32
  | StringPoolOutOfBounds
  | EntriesOutOfBounds
  | BigramsOutOfBounds

text \<open>
  The three outcomes of a load: the dictionary, an error raised with \<open>ereport(ERROR, ...)\<close>
  (which does not return), or a read at the given offset that lies outside the buffer.
\<close>

datatype load_result =
  Loaded LemmaIsBinary
  | Failed load_error
  | ReadPastEnd nat

definition MaxAllocSize :: nat where
  "MaxAllocSize = 0x3fffffff"

definition align4 :: "nat \<Rightarrow> nat" where
  "align4 n = (n + 3) - (n + 3) mod 4"

text \<open>
  \<open>lemma_is_load_binary\<close> from the point where the file's length is known. The
  argument is the content of the file; \<open>palloc\<close> raises an error for a request above
  \<open>MaxAllocSize\<close>. The header fields are read without any check of the size.
\<close>

definition hdr :: "bytes \<Rightarrow> nat \<Rightarrow> (u32 \<Rightarrow> load_result) \<Rightarrow> load_result" where
  "hdr buf off k = (case rd_u32 buf off of None \<Rightarrow> ReadPastEnd off | Some v \<Rightarrow> k v)"

definition load_bigrams :: "LemmaIsBinary \<Rightarrow> nat \<Rightarrow> load_result" where
  "load_bigrams bin offset =
     (let bc = unat (bigramCount bin) in
      if 0 < bc then
        (let o1 = offset;
             o2 = o1 + bc * 4;
             o3 = align4 (o2 + bc);
             o4 = o3 + bc * 4;
             o5 = align4 (o4 + bc);
             o6 = o5 + bc * 4
         in if size' bin < o6 then Failed BigramsOutOfBounds
            else Loaded (bin\<lparr>bigramW1Offsets := Some o1, bigramW1Lengths := Some o2,
                              bigramW2Offsets := Some o3, bigramW2Lengths := Some o4,
                              bigramFreqs := Some o5\<rparr>))
      else Loaded bin)"

definition load_tables ::
  "bytes \<Rightarrow> u32 \<Rightarrow> u32 \<Rightarrow> u32 \<Rightarrow> u32 \<Rightarrow> u32 \<Rightarrow> u32 \<Rightarrow> load_result" where
  "load_tables buf ver sps lc wc ec bc =
     (let sz = length buf in
      if sz < 32 + unat sps then Failed StringPoolOutOfBounds
      else
        (let p0 = 32;
             l0 = p0 + unat sps;
             l1 = l0 + unat lc * 4;
             w0 = align4 (l1 + unat lc);
             w1 = w0 + unat wc * 4;
             e0 = align4 (w1 + unat wc);
             e1 = e0 + unat (wc + 1) * 4;
             bin = \<lparr>data = buf, size' = sz, version = ver, stringPoolSize = sps,
                    lemmaCount = lc, wordCount = wc, entryCount = ec, bigramCount = bc,
                    stringPool = p0, lemmaOffsets = l0, lemmaLengths = l1,
                    wordOffsets = w0, wordLengths = w1, entryOffsets = e0, entries = e1,
                    bigramW1Offsets = None, bigramW1Lengths = None,
                    bigramW2Offsets = None, bigramW2Lengths = None, bigramFreqs = None\<rparr>
         in if sz < e1 + unat ec * 4 then Failed EntriesOutOfBounds
            else load_bigrams bin (align4 (e1 + unat ec * 4))))"

definition lemma_is_load_binary :: "bytes \<Rightarrow> load_result" where
  "lemma_is_load_binary buf =
     (if length buf = 0 then Failed UndefinedFile
      else if MaxAllocSize < length buf then Failed InvalidAllocSize
      else hdr buf 0 (\<lambda>magic.
        if magic \<noteq> 0x4C454D41 then Failed BadMagic
        else hdr buf 4 (\<lambda>ver.
          if ver \<noteq> 1 \<and> ver \<noteq> 2 then Failed (UnsupportedVersion ver)
          else hdr buf 8 (\<lambda>sps. hdr buf 12 (\<lambda>lc. hdr buf 16 (\<lambda>wc.
               hdr buf 20 (\<lambda>ec. hdr buf 24 (\<lambda>bc.
                 load_tables buf ver sps lc wc ec bc))))))))"

section \<open>Properties of the loader\<close>

subsection \<open>Little-endian fields\<close>

lemma u8_bound: "unat (x::u8) < 256"
  using unsigned_less[of x, where 'a=nat] by simp

lemma u32_bound: "unat (x::u32) < 4294967296"
  using unsigned_less[of x, where 'a=nat] by simp

lemma unat_le32: "unat (le32 a b c d) = unat a + 256 * (unat b + 256 * (unat c + 256 * unat d))"
proof -
  have "unat a + 256 * unat b + 65536 * unat c + 16777216 * unat d < 2 ^ 32"
    using u8_bound[of a] u8_bound[of b] u8_bound[of c] u8_bound[of d] by simp
  then show ?thesis unfolding le32_def unat_of_nat by simp
qed

lemma base256_split:
  fixes a a' x x' :: nat
  assumes "a < 256" "a' < 256" "a + 256 * x = a' + 256 * x'"
  shows "a = a' \<and> x = x'"
proof -
  have "(a + 256 * x) mod 256 = a mod 256" "(a' + 256 * x') mod 256 = a' mod 256"
    by simp_all
  then have "a mod 256 = a' mod 256" using assms(3) by simp
  then have "a = a'" using assms(1,2) by simp
  then show ?thesis using assms(3) by simp
qed

lemma le32_inj: "le32 a b c d = le32 a' b' c' d' \<longleftrightarrow> a = a' \<and> b = b' \<and> c = c' \<and> d = d'"
proof
  assume "le32 a b c d = le32 a' b' c' d'"
  then have e: "unat (le32 a b c d) = unat (le32 a' b' c' d')" by simp
  note s1 = base256_split[OF u8_bound u8_bound e[unfolded unat_le32]]
  note s2 = base256_split[OF u8_bound u8_bound conjunct2[OF s1]]
  note s3 = base256_split[OF u8_bound u8_bound conjunct2[OF s2]]
  from s1 s2 s3 show "a = a' \<and> b = b' \<and> c = c' \<and> d = d'"
    by (simp add: word_unat_eq_iff)
qed simp

lemma magic_le32: "le32 0x41 0x4D 0x45 0x4C = 0x4C454D41"
  by (simp add: le32_def)

subsection \<open>The file layout as the format description gives it\<close>

text \<open>
  The definitions of this subsection follow the written description of the format, not
  the code: the magic as the four bytes "AMEL" of the little-endian constant, a header
  field as the little-endian value of four bytes, padding as rounding up to a multiple
  of four, and the declared regions as (start, length) pairs in the stated order:
  string pool; lemma offsets and lengths; word offsets and lengths; entry-range offsets;
  entries; and, when there are bigrams, the two word tables and the frequencies.
\<close>

definition magic_bytes :: bytes where
  "magic_bytes = [0x41, 0x4D, 0x45, 0x4C]"

definition hdr_field :: "bytes \<Rightarrow> nat \<Rightarrow> u32" where
  "hdr_field buf off = le32 (buf ! off) (buf ! (off + 1)) (buf ! (off + 2)) (buf ! (off + 3))"

definition pad4 :: "nat \<Rightarrow> nat" where
  "pad4 n = 4 * ((n + 3) div 4)"

definition spec_regions :: "nat \<Rightarrow> nat \<Rightarrow> nat \<Rightarrow> nat \<Rightarrow> nat \<Rightarrow> (nat \<times> nat) list" where
  "spec_regions sps lc wc ec bc =
     (let pool = 32;
          lem = pool + sps;
          wrd = pad4 (lem + lc * 4 + lc);
          rng = pad4 (wrd + wc * 4 + wc);
          ent = rng + (wc + 1) * 4;
          bg1 = pad4 (ent + ec * 4);
          bg2 = pad4 (bg1 + bc * 4 + bc);
          frq = pad4 (bg2 + bc * 4 + bc)
      in [(pool, sps), (lem, lc * 4), (lem + lc * 4, lc), (wrd, wc * 4), (wrd + wc * 4, wc),
          (rng, (wc + 1) * 4), (ent, ec * 4)]
         @ (if 0 < bc
            then [(bg1, bc * 4), (bg1 + bc * 4, bc), (bg2, bc * 4), (bg2 + bc * 4, bc),
                  (frq, bc * 4)]
            else []))"

definition corruption :: "load_result \<Rightarrow> bool" where
  "corruption r \<longleftrightarrow>
     r = Failed StringPoolOutOfBounds \<or> r = Failed EntriesOutOfBounds
     \<or> r = Failed BigramsOutOfBounds"

definition past_end :: "nat \<Rightarrow> nat \<times> nat \<Rightarrow> bool" where
  "past_end sz r \<longleftrightarrow> sz < fst r + snd r"

text \<open>
  The value of the global \<open>lemma_is_bin\<close> after the block
  \<open>if (lemma_is_bin == NULL) lemma_is_bin = lemma_is_load_binary(NULL);\<close>
  that opens the three SQL functions: an error leaves the function before the assignment.
\<close>

definition ensure_loaded :: "LemmaIsBinary option \<Rightarrow> bytes \<Rightarrow> LemmaIsBinary option" where
  "ensure_loaded g file =
     (case g of
        Some b \<Rightarrow> Some b
      | None \<Rightarrow> (case lemma_is_load_binary file of Loaded b \<Rightarrow> Some b | _ \<Rightarrow> None))"

text \<open>Three files used as concrete inputs below.\<close>

definition magic_only :: bytes where
  "magic_only = [0x41, 0x4D, 0x45, 0x4C]"

definition bad_magic_bad_version :: bytes where
  "bad_magic_bad_version = [0, 0, 0, 0, 3, 0, 0, 0] @ replicate 24 0"

definition empty_dict :: bytes where
  "empty_dict = [0x41, 0x4D, 0x45, 0x4C, 1, 0, 0, 0] @ replicate 28 0"

subsection \<open>The header is read unchecked\<close>

text \<open>
  Claim C1. The loader is to read only bytes of the buffer, the 32-byte header included,
  so that a buffer of any size either gives an error or is read in bounds.
  The code checks the string pool, the entries and the bigram tables against the size,
  but reads the seven header fields with no check at all: on a file that holds the four
  magic bytes and nothing else, the read of the version field at offset 4 is outside the
  buffer.
\<close>

theorem load_reads_header_past_end:
  "lemma_is_load_binary magic_only = ReadPastEnd 4"
  by (simp add: magic_only_def lemma_is_load_binary_def hdr_def rd_u32_def le32_def
      MaxAllocSize_def)

subsection \<open>Which error a load raises\<close>

lemma align4_pad4: "align4 n = pad4 n"
  unfolding align4_def pad4_def by presburger

lemma pad4_ge: "n \<le> pad4 n"
  unfolding pad4_def by presburger

lemma rd_u32_hdr: "off + 4 \<le> length buf \<Longrightarrow> rd_u32 buf off = Some (hdr_field buf off)"
  by (simp add: rd_u32_def hdr_field_def)

lemma load_hdr:
  assumes "32 \<le> length buf" "length buf \<le> MaxAllocSize"
  shows "lemma_is_load_binary buf =
     (if hdr_field buf 0 \<noteq> 0x4C454D41 then Failed BadMagic
      else if hdr_field buf 4 \<noteq> 1 \<and> hdr_field buf 4 \<noteq> 2
        then Failed (UnsupportedVersion (hdr_field buf 4))
      else load_tables buf (hdr_field buf 4) (hdr_field buf 8) (hdr_field buf 12)
             (hdr_field buf 16) (hdr_field buf 20) (hdr_field buf 24))"
proof -
  have "buf \<noteq> []" using assms(1) by auto
  then show ?thesis
    using assms by (simp add: lemma_is_load_binary_def hdr_def rd_u32_hdr)
qed

lemma magic_take4:
  assumes "4 \<le> length buf"
  shows "hdr_field buf 0 = 0x4C454D41 \<longleftrightarrow> take 4 buf = magic_bytes"
proof -
  from assms have "Suc (Suc (Suc (Suc 0))) \<le> length buf" by simp
  then obtain a b c d r where buf: "buf = a # b # c # d # r"
    by (auto simp: Suc_le_length_iff)
  show ?thesis
    unfolding buf hdr_field_def magic_bytes_def magic_le32[symmetric] le32_inj
    by auto
qed

lemma load_tables_cases:
  "corruption (load_tables buf ver sps lc wc ec bc) \<or> (\<exists>bin. load_tables buf ver sps lc wc ec bc = Loaded bin)"
  by (simp add: load_tables_def load_bigrams_def corruption_def Let_def)

lemma load_tables_corruption_iff:
  "corruption (load_tables buf ver sps lc wc ec bc) \<longleftrightarrow>
     (let e1 = pad4 (pad4 (32 + unat sps + unat lc * 4 + unat lc) + unat wc * 4 + unat wc)
               + unat (wc + 1) * 4 + unat ec * 4;
          g3 = pad4 (pad4 (pad4 e1 + unat bc * 4 + unat bc) + unat bc * 4 + unat bc) + unat bc * 4
      in length buf < 32 + unat sps \<or> length buf < e1 \<or> (0 < unat bc \<and> length buf < g3))"
  by (simp add: load_tables_def load_bigrams_def corruption_def Let_def align4_pad4 add.assoc)

lemma spec_regions_past_end:
  "(\<exists>r \<in> set (spec_regions S L W E B). past_end sz r) \<longleftrightarrow>
     (let e1 = pad4 (pad4 (32 + S + L * 4 + L) + W * 4 + W) + (W + 1) * 4 + E * 4;
          g3 = pad4 (pad4 (pad4 e1 + B * 4 + B) + B * 4 + B) + B * 4
      in sz < 32 + S \<or> sz < e1 \<or> (0 < B \<and> sz < g3))"
proof -
  define w0 where "w0 = pad4 (32 + S + L * 4 + L)"
  define e0 where "e0 = pad4 (w0 + W * 4 + W)"
  define g1 where "g1 = pad4 (e0 + (W + 1) * 4 + E * 4)"
  define g2 where "g2 = pad4 (g1 + B * 4 + B)"
  define g3 where "g3 = pad4 (g2 + B * 4 + B)"
  have f: "32 + S + L * 4 + L \<le> w0" "w0 + W * 4 + W \<le> e0" "e0 + (W + 1) * 4 + E * 4 \<le> g1"
    "g1 + B * 4 + B \<le> g2" "g2 + B * 4 + B \<le> g3"
    unfolding w0_def e0_def g1_def g2_def g3_def by (rule pad4_ge)+
  have sr: "spec_regions S L W E B =
      [(32, S), (32 + S, L * 4), (32 + S + L * 4, L), (w0, W * 4), (w0 + W * 4, W),
       (e0, (W + 1) * 4), (e0 + (W + 1) * 4, E * 4)]
      @ (if 0 < B then [(g1, B * 4), (g1 + B * 4, B), (g2, B * 4), (g2 + B * 4, B), (g3, B * 4)]
         else [])"
    unfolding spec_regions_def Let_def w0_def e0_def g1_def g2_def g3_def ..
  have "(\<exists>r \<in> set (spec_regions S L W E B). past_end sz r) \<longleftrightarrow>
        (sz < 32 + S \<or> sz < e0 + (W + 1) * 4 + E * 4 \<or> (0 < B \<and> sz < g3 + B * 4))"
    unfolding sr past_end_def using f by auto
  then show ?thesis
    unfolding Let_def w0_def e0_def g1_def g2_def g3_def .
qed

lemma u32_succ: "unat (w + 1 :: u32) = unat w + 1 \<or> unat w = 4294967295"
proof (cases "unat w + 1 < 2 ^ 32")
  case True
  then show ?thesis by (simp add: unat_word_ariths)
next
  case False
  moreover have "unat w < 2 ^ 32" using unsigned_less[of w, where 'a=nat] by simp
  ultimately show ?thesis by simp
qed

lemma load_tables_spec:
  assumes "length buf \<le> MaxAllocSize"
  shows "corruption (load_tables buf ver sps lc wc ec bc) \<longleftrightarrow>
     (\<exists>r \<in> set (spec_regions (unat sps) (unat lc) (unat wc) (unat ec) (unat bc)).
        past_end (length buf) r)"
proof -
  consider "unat (wc + 1) = unat wc + 1" | "unat wc = 4294967295" using u32_succ by blast
  then show ?thesis
  proof cases
    case 1
    then show ?thesis
      unfolding load_tables_corruption_iff spec_regions_past_end by simp
  next
    case 2
    let ?w0 = "pad4 (32 + unat sps + unat lc * 4 + unat lc)"
    have big: "length buf < ?w0 + unat wc * 4 + unat wc"
      using assms 2 by (simp add: MaxAllocSize_def)
    have "length buf < pad4 (?w0 + unat wc * 4 + unat wc)"
      using big pad4_ge[of "?w0 + unat wc * 4 + unat wc"] by linarith
    then show ?thesis
      unfolding load_tables_corruption_iff spec_regions_past_end Let_def by linarith
  qed
qed

text \<open>
  Claim C2, as the code has it. For a file of at least 32 bytes that \<open>palloc\<close>
  accepts, the checks run in the order magic, version, regions, and the first that fails
  decides the error: the format error is raised exactly when the first four bytes are not
  the magic; the version error exactly when the magic is right and the version is neither
  1 nor 2; a corruption error exactly when magic and version are right and some declared
  region ends past the end of the buffer; otherwise the dictionary is returned. An error
  leaves the global dictionary pointer \<open>NULL\<close>.
\<close>

theorem load_error_conditions:
  assumes "32 \<le> length buf" and "length buf \<le> MaxAllocSize"
  shows "(lemma_is_load_binary buf = Failed BadMagic \<longleftrightarrow> take 4 buf \<noteq> magic_bytes)
    \<and> ((\<exists>v. lemma_is_load_binary buf = Failed (UnsupportedVersion v)) \<longleftrightarrow>
         take 4 buf = magic_bytes \<and> hdr_field buf 4 \<noteq> 1 \<and> hdr_field buf 4 \<noteq> 2)
    \<and> (corruption (lemma_is_load_binary buf) \<longleftrightarrow>
         take 4 buf = magic_bytes \<and> (hdr_field buf 4 = 1 \<or> hdr_field buf 4 = 2)
         \<and> (\<exists>r \<in> set (spec_regions (unat (hdr_field buf 8)) (unat (hdr_field buf 12))
                 (unat (hdr_field buf 16)) (unat (hdr_field buf 20)) (unat (hdr_field buf 24))).
               past_end (length buf) r))
    \<and> ((\<exists>bin. lemma_is_load_binary buf = Loaded bin) \<longleftrightarrow>
         take 4 buf = magic_bytes \<and> (hdr_field buf 4 = 1 \<or> hdr_field buf 4 = 2)
         \<and> \<not> (\<exists>r \<in> set (spec_regions (unat (hdr_field buf 8)) (unat (hdr_field buf 12))
                 (unat (hdr_field buf 16)) (unat (hdr_field buf 20)) (unat (hdr_field buf 24))).
               past_end (length buf) r))
    \<and> (\<forall>e. lemma_is_load_binary buf = Failed e \<longrightarrow> ensure_loaded None buf = None)"
proof -
  let ?T = "load_tables buf (hdr_field buf 4) (hdr_field buf 8) (hdr_field buf 12)
             (hdr_field buf 16) (hdr_field buf 20) (hdr_field buf 24)"
  have m: "hdr_field buf 0 = 0x4C454D41 \<longleftrightarrow> take 4 buf = magic_bytes"
    using assms(1) by (intro magic_take4) simp
  note sp = load_tables_spec[OF assms(2), of "hdr_field buf 4" "hdr_field buf 8"
      "hdr_field buf 12" "hdr_field buf 16" "hdr_field buf 20" "hdr_field buf 24"]
  have cs: "corruption ?T \<or> (\<exists>bin. ?T = Loaded bin)" by (rule load_tables_cases)
  have ex: "\<not> (corruption ?T \<and> (\<exists>bin. ?T = Loaded bin))" by (auto simp: corruption_def)
  have nb: "?T \<noteq> Failed BadMagic" "\<And>v. ?T \<noteq> Failed (UnsupportedVersion v)"
    using cs by (auto simp: corruption_def)
  have c1: "lemma_is_load_binary buf = Failed BadMagic \<longleftrightarrow> take 4 buf \<noteq> magic_bytes"
    using nb m by (simp add: load_hdr[OF assms])
  have c2: "(\<exists>v. lemma_is_load_binary buf = Failed (UnsupportedVersion v)) \<longleftrightarrow>
         take 4 buf = magic_bytes \<and> hdr_field buf 4 \<noteq> 1 \<and> hdr_field buf 4 \<noteq> 2"
    using nb m by (simp add: load_hdr[OF assms])
  have c3: "corruption (lemma_is_load_binary buf) \<longleftrightarrow>
         take 4 buf = magic_bytes \<and> (hdr_field buf 4 = 1 \<or> hdr_field buf 4 = 2) \<and> corruption ?T"
    using m by (auto simp: load_hdr[OF assms] corruption_def)
  have c4: "(\<exists>bin. lemma_is_load_binary buf = Loaded bin) \<longleftrightarrow>
         take 4 buf = magic_bytes \<and> (hdr_field buf 4 = 1 \<or> hdr_field buf 4 = 2)
         \<and> \<not> corruption ?T"
    using m cs ex by (auto simp: load_hdr[OF assms])
  have c5: "\<forall>e. lemma_is_load_binary buf = Failed e \<longrightarrow> ensure_loaded None buf = None"
    by (simp add: ensure_loaded_def)
  show ?thesis using c1 c2 c3 c4 c5 unfolding sp by blast
qed

text \<open>
  The claim as stated has the version error raised exactly when the version field is
  neither 1 nor 2. A file with a wrong magic and version 3 gets the format error.
\<close>

theorem version_error_counterexample:
  "\<not> ((\<exists>v. lemma_is_load_binary bad_magic_bad_version = Failed (UnsupportedVersion v)) \<longleftrightarrow>
       hdr_field bad_magic_bad_version 4 \<noteq> 1 \<and> hdr_field bad_magic_bad_version 4 \<noteq> 2)"
proof -
  have "lemma_is_load_binary bad_magic_bad_version = Failed BadMagic"
    by (simp add: bad_magic_bad_version_def lemma_is_load_binary_def hdr_def rd_u32_def
        le32_def MaxAllocSize_def)
  moreover have "hdr_field bad_magic_bad_version 4 = 3"
    by (simp add: bad_magic_bad_version_def hdr_field_def le32_def)
  ultimately show ?thesis by simp
qed

theorem load_error_conditions_witness:
  "32 \<le> length empty_dict \<and> length empty_dict \<le> MaxAllocSize
   \<and> take 4 empty_dict = magic_bytes \<and> hdr_field empty_dict 4 = 1
   \<and> (\<exists>bin. lemma_is_load_binary empty_dict = Loaded bin)
   \<and> \<not> corruption (lemma_is_load_binary empty_dict)"
proof -
  have h1: "32 \<le> length empty_dict" by (simp add: empty_dict_def)
  have h2: "length empty_dict \<le> MaxAllocSize" by (simp add: empty_dict_def MaxAllocSize_def)
  have m: "take 4 empty_dict = magic_bytes" by (simp add: empty_dict_def magic_bytes_def)
  have v: "hdr_field empty_dict 4 = 1" by (simp add: empty_dict_def hdr_field_def le32_def)
  have z: "hdr_field empty_dict 8 = 0" "hdr_field empty_dict 12 = 0" "hdr_field empty_dict 16 = 0"
    "hdr_field empty_dict 20 = 0" "hdr_field empty_dict 24 = 0"
    by (simp_all add: empty_dict_def hdr_field_def le32_def)
  have r: "\<not> (\<exists>r \<in> set (spec_regions 0 0 0 0 0). past_end (length empty_dict) r)"
    by (simp add: spec_regions_def past_end_def pad4_def empty_dict_def)
  from load_error_conditions[OF h1 h2] m v z r
  have "(\<exists>bin. lemma_is_load_binary empty_dict = Loaded bin)
      \<and> \<not> corruption (lemma_is_load_binary empty_dict)"
    by simp
  with h1 h2 m v show ?thesis by simp
qed


section \<open>Entry codec\<close>

definition lemma_is_unpack_entry :: "LemmaIsBinary \<Rightarrow> u32 \<Rightarrow> LemmaIsEntry" where
  "lemma_is_unpack_entry bin packed =
     (if version bin = 1
      then \<lparr>lemmaIdx = drop_bit 4 packed, posCode = ucast (packed AND 0xF),
            caseCode = 0, genderCode = 0, numberCode = 0\<rparr>
      else \<lparr>lemmaIdx = drop_bit 10 packed, posCode = ucast (packed AND 0xF),
            caseCode = ucast (drop_bit 4 packed AND 0x7),
            genderCode = ucast (drop_bit 7 packed AND 0x3),
            numberCode = ucast (drop_bit 9 packed AND 0x1)\<rparr>)"

definition lemma_is_pos_from_code :: "u8 \<Rightarrow> IcelandicPos" where
  "lemma_is_pos_from_code code =
     (if code = 0 then POS_NO
      else if code = 1 then POS_SO
      else if code = 2 then POS_LO
      else if code = 3 then POS_AO
      else if code = 4 then POS_FS
      else if code = 5 then POS_FN
      else if code = 6 then POS_ST
      else if code = 7 then POS_TO
      else if code = 8 then POS_GR
      else if code = 9 then POS_UH
      else POS_NO)"

text \<open>A dictionary value with nothing in it, to run the codec on.\<close>

definition blank_bin :: "u32 \<Rightarrow> LemmaIsBinary" where
  "blank_bin ver =
     \<lparr>data = [], size' = 0, version = ver, stringPoolSize = 0, lemmaCount = 0,
      wordCount = 0, entryCount = 0, bigramCount = 0, stringPool = 32, lemmaOffsets = 32,
      lemmaLengths = 32, wordOffsets = 32, wordLengths = 32, entryOffsets = 32,
      entries = 36, bigramW1Offsets = None, bigramW1Lengths = None,
      bigramW2Offsets = None, bigramW2Lengths = None, bigramFreqs = None\<rparr>"

subsection \<open>The bit layout\<close>

lemma unat_low_bits:
  "unat (ucast (drop_bit k (w :: u32) AND mask n) :: u8) = (unat w div 2 ^ k) mod 2 ^ n"
  if "n \<le> 8"
proof -
  have "unat (drop_bit k w AND mask n) = (unat w div 2 ^ k) mod 2 ^ n"
  proof -
    have "take_bit LENGTH(32) (unat w) = unat w"
      by (rule take_bit_nat_eq_self) (simp add: u32_bound)
    then have "unat (take_bit n (drop_bit k w)) = take_bit n (drop_bit k (unat w))"
      by (simp only: unsigned_take_bit_eq unsigned_drop_bit_eq)
    then show ?thesis
      by (simp only: take_bit_eq_mask[symmetric] take_bit_eq_mod drop_bit_eq_div)
  qed
  moreover have "(unat w div 2 ^ k) mod 2 ^ n < 2 ^ 8"
  proof -
    have "(unat w div 2 ^ k) mod 2 ^ n < (2::nat) ^ n" by simp
    also have "\<dots> \<le> 2 ^ 8" using that by (intro power_increasing) simp_all
    finally show ?thesis .
  qed
  ultimately show ?thesis
    by (simp add: unsigned_ucast_eq take_bit_eq_mod)
qed


lemma unat_pos_bits: "unat (ucast ((w :: u32) AND 0xF) :: u8) = unat w mod 16"
  using unat_low_bits[of 4 0 w] by (simp add: mask_eq_exp_minus_1)

lemma unat_case_bits: "unat (ucast (drop_bit 4 (w :: u32) AND 0x7) :: u8) = (unat w div 16) mod 8"
  using unat_low_bits[of 3 4 w] by (simp add: mask_eq_exp_minus_1)

lemma unat_gender_bits:
  "unat (ucast (drop_bit 7 (w :: u32) AND 0x3) :: u8) = (unat w div 128) mod 4"
  using unat_low_bits[of 2 7 w] by (simp add: mask_eq_exp_minus_1)

lemma unat_number_bits:
  "unat (ucast (drop_bit 9 (w :: u32) AND 0x1) :: u8) = (unat w div 512) mod 2"
  using unat_low_bits[of 1 9 w] by (simp add: mask_eq_exp_minus_1)

lemma unat_shift_right: "unat (drop_bit k (w :: u32)) = unat w div 2 ^ k"
proof -
  have "take_bit LENGTH(32) (unat w) = unat w"
    by (rule take_bit_nat_eq_self) (simp add: u32_bound)
  then have "unat (drop_bit k w) = drop_bit k (unat w)"
    by (simp only: unsigned_drop_bit_eq)
  then show ?thesis by (simp only: drop_bit_eq_div)
qed

lemma pos_from_code_default: "9 < unat code \<Longrightarrow> lemma_is_pos_from_code code = POS_NO"
  by (auto simp: lemma_is_pos_from_code_def)

text \<open>
  Claim C6. Decoding is a total function of the packed value and follows the layout of
  the dictionary's version: with version 1 the lemma id is \<open>packed >> 4\<close> (the value
  divided by 16), the part-of-speech code \<open>packed & 0xF\<close> (the value modulo 16), and
  case, gender and number are zero; with version 2 the lemma id is \<open>packed >> 10\<close>,
  the code \<open>packed & 0xF\<close>, the case bits 4 to 6, the gender bits 7 and 8, the number
  bit 9. The codes 0 to 9 map to the ten tags in the order of the table, every other
  code to the noun tag \<open>POS_NO\<close>.
\<close>

theorem entry_decoding:
  "(version bin = 1 \<longrightarrow>
      lemmaIdx (lemma_is_unpack_entry bin packed) = drop_bit 4 packed
      \<and> unat (lemmaIdx (lemma_is_unpack_entry bin packed)) = unat packed div 16
      \<and> unat (posCode (lemma_is_unpack_entry bin packed)) = unat packed mod 16
      \<and> caseCode (lemma_is_unpack_entry bin packed) = 0
      \<and> genderCode (lemma_is_unpack_entry bin packed) = 0
      \<and> numberCode (lemma_is_unpack_entry bin packed) = 0)
   \<and> (version bin = 2 \<longrightarrow>
      lemmaIdx (lemma_is_unpack_entry bin packed) = drop_bit 10 packed
      \<and> unat (lemmaIdx (lemma_is_unpack_entry bin packed)) = unat packed div 1024
      \<and> unat (posCode (lemma_is_unpack_entry bin packed)) = unat packed mod 16
      \<and> unat (caseCode (lemma_is_unpack_entry bin packed)) = (unat packed div 16) mod 8
      \<and> unat (genderCode (lemma_is_unpack_entry bin packed)) = (unat packed div 128) mod 4
      \<and> unat (numberCode (lemma_is_unpack_entry bin packed)) = (unat packed div 512) mod 2)
   \<and> map lemma_is_pos_from_code [0, 1, 2, 3, 4, 5, 6, 7, 8, 9] =
        [POS_NO, POS_SO, POS_LO, POS_AO, POS_FS, POS_FN, POS_ST, POS_TO, POS_GR, POS_UH]
   \<and> (9 < unat code \<longrightarrow> lemma_is_pos_from_code code = POS_NO)"
proof -
  have v1: "version bin = 1 \<Longrightarrow> lemma_is_unpack_entry bin packed =
      \<lparr>lemmaIdx = drop_bit 4 packed, posCode = ucast (packed AND 0xF),
       caseCode = 0, genderCode = 0, numberCode = 0\<rparr>"
    by (simp add: lemma_is_unpack_entry_def)
  have v2: "version bin = 2 \<Longrightarrow> lemma_is_unpack_entry bin packed =
      \<lparr>lemmaIdx = drop_bit 10 packed, posCode = ucast (packed AND 0xF),
       caseCode = ucast (drop_bit 4 packed AND 0x7),
       genderCode = ucast (drop_bit 7 packed AND 0x3),
       numberCode = ucast (drop_bit 9 packed AND 0x1)\<rparr>"
    by (simp add: lemma_is_unpack_entry_def)
  have tab: "map lemma_is_pos_from_code [0, 1, 2, 3, 4, 5, 6, 7, 8, 9] =
        [POS_NO, POS_SO, POS_LO, POS_AO, POS_FS, POS_FN, POS_ST, POS_TO, POS_GR, POS_UH]"
    by (simp add: lemma_is_pos_from_code_def)
  show ?thesis
    using tab pos_from_code_default[of code] unat_shift_right[of 4 packed]
      unat_shift_right[of 10 packed]
    by (auto simp: v1 v2 unat_pos_bits unat_case_bits unat_gender_bits unat_number_bits)
qed

theorem entry_decoding_witness:
  "version (blank_bin 1) = 1
   \<and> lemma_is_unpack_entry (blank_bin 1) 0x1234 =
       \<lparr>lemmaIdx = 0x123, posCode = 4, caseCode = 0, genderCode = 0, numberCode = 0\<rparr>
   \<and> version (blank_bin 2) = 2
   \<and> unat (lemmaIdx (lemma_is_unpack_entry (blank_bin 2) 0x1ABC)) = 6
   \<and> unat (posCode (lemma_is_unpack_entry (blank_bin 2) 0x1ABC)) = 12
   \<and> unat (caseCode (lemma_is_unpack_entry (blank_bin 2) 0x1ABC)) = 3
   \<and> unat (genderCode (lemma_is_unpack_entry (blank_bin 2) 0x1ABC)) = 1
   \<and> unat (numberCode (lemma_is_unpack_entry (blank_bin 2) 0x1ABC)) = 1
   \<and> 9 < unat (12 :: u8) \<and> lemma_is_pos_from_code 12 = POS_NO"
proof -
  have a: "version (blank_bin 1) = 1" and b: "version (blank_bin 2) = 2"
    by (simp_all add: blank_bin_def)
  have c: "9 < unat (12 :: u8)" by simp
  have e1: "lemma_is_unpack_entry (blank_bin 1) 0x1234 =
       \<lparr>lemmaIdx = 0x123, posCode = 4, caseCode = 0, genderCode = 0, numberCode = 0\<rparr>"
    by (simp add: lemma_is_unpack_entry_def blank_bin_def drop_bit_eq_div)
  from entry_decoding[of "blank_bin 2" "0x1ABC" 12] b c
  have "unat (lemmaIdx (lemma_is_unpack_entry (blank_bin 2) 0x1ABC)) = 6
   \<and> unat (posCode (lemma_is_unpack_entry (blank_bin 2) 0x1ABC)) = 12
   \<and> unat (caseCode (lemma_is_unpack_entry (blank_bin 2) 0x1ABC)) = 3
   \<and> unat (genderCode (lemma_is_unpack_entry (blank_bin 2) 0x1ABC)) = 1
   \<and> unat (numberCode (lemma_is_unpack_entry (blank_bin 2) 0x1ABC)) = 1
   \<and> lemma_is_pos_from_code 12 = POS_NO"
    by simp
  with a b c e1 show ?thesis by simp
qed

section \<open>Results, C strings and the comparators\<close>

text \<open>
  After loading, a function of the extension either returns a value or does not return
  normally. Three ways of not returning are modelled: a read outside the dictionary
  buffer and an overflow of \<open>int\<close> arithmetic, both undefined in C, and \<open>palloc\<close>'s
  error for a request above \<open>MaxAllocSize\<close>, where the requested size is computed from
  the content of the dictionary. Allocations whose size comes from the SQL argument are
  taken to succeed.
\<close>

datatype fault = ReadOutOfBounds | IntOverflow | AllocTooLarge

type_synonym 'a res = "fault + 'a"

definition seq :: "'a res \<Rightarrow> ('a \<Rightarrow> 'b res) \<Rightarrow> 'b res" where
  "seq m k = (case m of Inl f \<Rightarrow> Inl f | Inr x \<Rightarrow> k x)"

lemma seq_cong [fundef_cong]:
  "m = m' \<Longrightarrow> (\<And>x. m' = Inr x \<Longrightarrow> k x = k' x) \<Longrightarrow> seq m k = seq m' k'"
  by (auto simp: seq_def split: sum.splits)

lemma seq_simps [simp]: "seq (Inl f) k = Inl f" "seq (Inr x) k = k x"
  by (simp_all add: seq_def)

definition in_bounds :: "'a option \<Rightarrow> 'a res" where
  "in_bounds r = (case r of None \<Rightarrow> Inl ReadOutOfBounds | Some v \<Rightarrow> Inr v)"

definition palloc :: "nat \<Rightarrow> 'a res \<Rightarrow> 'a res" where
  "palloc n k = (if MaxAllocSize < n then Inl AllocTooLarge else k)"

text \<open>
  A C string is modelled by the list of its bytes before the terminating NUL; its
  \<open>strlen\<close> is the length of the list. The strings of the SQL level are PostgreSQL
  text values, which hold no NUL byte and fewer than \<open>2 ^ 30\<close> bytes, so that
  \<open>(int) strlen(word)\<close> is the length.

  \<open>memcmp\<close> and \<open>strcmp\<close> compare bytes as unsigned values; only the sign of their
  result is specified.
\<close>

fun memcmp :: "bytes \<Rightarrow> bytes \<Rightarrow> int" where
  "memcmp (a # as) (b # bs) = (if a = b then memcmp as bs else int (unat a) - int (unat b))"
| "memcmp _ _ = 0"

fun strcmp :: "bytes \<Rightarrow> bytes \<Rightarrow> int" where
  "strcmp (a # as) (b # bs) = (if a = b then strcmp as bs else int (unat a) - int (unat b))"
| "strcmp [] (b # bs) = - 1"
| "strcmp (a # as) [] = 1"
| "strcmp [] [] = 0"

text \<open>
  \<open>pnstrdup(in, len)\<close> copies \<open>strnlen(in, len)\<close> bytes: it reads byte after byte
  up to the first NUL or up to \<open>len\<close> bytes.
\<close>

definition pnstrdup :: "bytes \<Rightarrow> nat \<Rightarrow> nat \<Rightarrow> bytes res" where
  "pnstrdup buf off len =
     (let avail = take len (drop off buf);
          s = takeWhile (\<lambda>b. b \<noteq> 0) avail
      in if length s < length avail \<or> length avail = len then Inr s
         else Inl ReadOutOfBounds)"

text \<open>
  The comparison both \<open>lemma_is_compare_word\<close> and \<open>lemma_is_compare_bigram\<close> make
  between a stored string of \<open>len\<close> bytes at \<open>off\<close> and a query string:
  \<open>memcmp\<close> over the shorter length, then the difference of the lengths. With no
  byte to compare, \<open>memcmp\<close> reads nothing.
\<close>

definition compare_view :: "bytes \<Rightarrow> nat \<Rightarrow> u8 \<Rightarrow> bytes \<Rightarrow> int \<Rightarrow> int res" where
  "compare_view buf off len word word_len =
     (let minlen = (if word_len < int (unat len) then word_len else int (unat len)) in
      seq (if nat minlen = 0 then Inr [] else in_bounds (rd_mem buf off (nat minlen)))
        (\<lambda>entry.
        let cmp = memcmp entry (take (nat minlen) word)
        in Inr (if cmp = 0 then int (unat len) - word_len else cmp)))"

subsection \<open>Comparators and the lexicographic order of byte strings\<close>

lemmas u8_diff_sign = word_less_def word_uint_eq_iff

lemma strcmp_less: "strcmp a b < 0 \<longleftrightarrow> a < b"
  by (induction a b rule: strcmp.induct) (auto simp: u8_diff_sign)

lemma strcmp_eq: "strcmp a b = 0 \<longleftrightarrow> a = b"
  by (induction a b rule: strcmp.induct) (auto simp: u8_diff_sign)

lemma strcmp_greater: "0 < strcmp a b \<longleftrightarrow> b < a"
proof -
  have "0 < strcmp a b \<longleftrightarrow> \<not> strcmp a b < 0 \<and> strcmp a b \<noteq> 0" by linarith
  then show ?thesis unfolding strcmp_less strcmp_eq by auto
qed

text \<open>The comparator on two strings that are both in memory.\<close>

definition cmp_bytes :: "bytes \<Rightarrow> bytes \<Rightarrow> int" where
  "cmp_bytes stored query =
     (let m = min (length stored) (length query);
          c = memcmp (take m stored) (take m query)
      in if c = 0 then int (length stored) - int (length query) else c)"

lemma cmp_bytes_Cons:
  "cmp_bytes (a # as) (b # bs) =
     (if a = b then cmp_bytes as bs else int (unat a) - int (unat b))"
proof (cases "a = b")
  case True
  then show ?thesis by (simp add: cmp_bytes_def Let_def)
next
  case False
  then have "int (unat a) - int (unat b) \<noteq> 0" by (simp add: word_uint_eq_iff)
  with False show ?thesis by (simp add: cmp_bytes_def Let_def)
qed

lemma cmp_bytes_Nil: "cmp_bytes [] q = - int (length q)" "cmp_bytes s [] = int (length s)"
  by (simp_all add: cmp_bytes_def)

lemma cmp_bytes_less: "cmp_bytes s q < 0 \<longleftrightarrow> s < q"
proof (induction s arbitrary: q)
  case Nil
  then show ?case by (cases q) (simp_all add: cmp_bytes_Nil)
next
  case (Cons a s)
  then show ?case by (cases q) (auto simp: cmp_bytes_Nil cmp_bytes_Cons u8_diff_sign)
qed

lemma cmp_bytes_eq: "cmp_bytes s q = 0 \<longleftrightarrow> s = q"
proof (induction s arbitrary: q)
  case Nil
  then show ?case by (cases q) (simp_all add: cmp_bytes_Nil)
next
  case (Cons a s)
  then show ?case by (cases q) (auto simp: cmp_bytes_Nil cmp_bytes_Cons u8_diff_sign)
qed

lemma cmp_bytes_greater: "0 < cmp_bytes s q \<longleftrightarrow> q < s"
proof -
  have "0 < cmp_bytes s q \<longleftrightarrow> \<not> cmp_bytes s q < 0 \<and> cmp_bytes s q \<noteq> 0" by linarith
  then show ?thesis unfolding cmp_bytes_less cmp_bytes_eq by auto
qed

lemma compare_view_in_bounds:
  assumes "rd_mem buf off (unat len) = Some s"
  shows "compare_view buf off len word (int (length word)) = Inr (cmp_bytes s word)"
proof -
  from assms have fit: "off + unat len \<le> length buf" and s: "s = take (unat len) (drop off buf)"
    by (auto simp: rd_mem_def split: if_splits)
  have ls: "length s = unat len" using fit s by simp
  define m where "m = min (length s) (length word)"
  have m: "(if int (length word) < int (unat len) then int (length word) else int (unat len)) = int m"
    unfolding m_def ls min_def by (simp only: of_nat_less_iff split: if_splits) auto
  have rd: "rd_mem buf off m = Some (take m s)"
    using fit ls by (auto simp: rd_mem_def s m_def take_take min_def)
  have rd': "(if nat (int m) = 0 then Inr [] else in_bounds (rd_mem buf off (nat (int m))))
      = Inr (take m s)"
    using rd by (simp add: in_bounds_def)
  show ?thesis
    unfolding compare_view_def m Let_def rd'
    by (simp add: cmp_bytes_def Let_def m_def[symmetric] ls[symmetric])
qed

section \<open>Floating point\<close>

text \<open>
  A \<open>double\<close> is an IEEE 754 binary64 value: a real number of the form
  \<open>m * 2 ^ (e - 52)\<close> with \<open>\<bar>m\<bar> < 2 ^ 53\<close> and \<open>- 1022 \<le> e \<le> 1023\<close>, an infinity or
  a NaN. The sign of a zero is not modelled: the code adds, compares, and divides by a
  value it has tested to be positive, and none of these tells the two zeros apart.
\<close>

datatype double = Finite real | PosInf | NegInf | NaN

text \<open>
  Rounding to nearest, ties to even, of a real number: to a multiple of
  \<open>2 ^ (e - 52)\<close>, where \<open>2 ^ e\<close> is the power of two at or below the number, and
  \<open>e = - 1022\<close> for the subnormal numbers; a result of magnitude \<open>2 ^ 1024\<close> is an
  infinity.
\<close>

definition round_even :: "real \<Rightarrow> int" where
  "round_even q =
     (let f = \<lfloor>q\<rfloor>; d = q - of_int f
      in if d < 1 / 2 then f else if 1 / 2 < d then f + 1 else if even f then f else f + 1)"

definition ulp_exponent :: "real \<Rightarrow> int" where
  "ulp_exponent y = max \<lfloor>log 2 \<bar>y\<bar>\<rfloor> (- 1022) - 52"

definition binary64 :: "real \<Rightarrow> real" where
  "binary64 y =
     (if y = 0 then 0
      else of_int (round_even (y / 2 powr of_int (ulp_exponent y)))
           * 2 powr of_int (ulp_exponent y))"

definition fl :: "real \<Rightarrow> double" where
  "fl y =
     (let r = binary64 y
      in if 2 ^ 1024 \<le> r then PosInf else if r \<le> - (2 ^ 1024) then NegInf else Finite r)"

text \<open>Addition, division and the comparison \<open>>\<close> of two doubles.\<close>

fun d_add :: "double \<Rightarrow> double \<Rightarrow> double" where
  "d_add (Finite x) (Finite y) = fl (x + y)"
| "d_add NaN b = NaN"
| "d_add a NaN = NaN"
| "d_add PosInf NegInf = NaN"
| "d_add NegInf PosInf = NaN"
| "d_add PosInf b = PosInf"
| "d_add a PosInf = PosInf"
| "d_add NegInf b = NegInf"
| "d_add a NegInf = NegInf"

fun d_div :: "double \<Rightarrow> double \<Rightarrow> double" where
  "d_div (Finite x) (Finite y) =
     (if y = 0 then (if x = 0 then NaN else if 0 < x then PosInf else NegInf)
      else fl (x / y))"
| "d_div NaN b = NaN"
| "d_div a NaN = NaN"
| "d_div (Finite x) b = Finite 0"
| "d_div PosInf (Finite y) = (if 0 \<le> y then PosInf else NegInf)"
| "d_div NegInf (Finite y) = (if 0 \<le> y then NegInf else PosInf)"
| "d_div a b = NaN"

fun d_gt :: "double \<Rightarrow> double \<Rightarrow> bool" where
  "d_gt (Finite x) (Finite y) \<longleftrightarrow> y < x"
| "d_gt PosInf (Finite y) \<longleftrightarrow> True"
| "d_gt PosInf NegInf \<longleftrightarrow> True"
| "d_gt (Finite x) NegInf \<longleftrightarrow> True"
| "d_gt a b \<longleftrightarrow> False"

text \<open>The conversion of a \<open>uint32\<close>, which is exact.\<close>

definition of_uint32 :: "u32 \<Rightarrow> double" where
  "of_uint32 f = Finite (real (unat f))"

text \<open>The doubles that are not negative: no NaN and not the negative infinity.\<close>

fun nonneg :: "double \<Rightarrow> bool" where
  "nonneg (Finite x) \<longleftrightarrow> 0 \<le> x"
| "nonneg PosInf \<longleftrightarrow> True"
| "nonneg NegInf \<longleftrightarrow> False"
| "nonneg NaN \<longleftrightarrow> False"

lemma round_even_floor: "\<lfloor>q\<rfloor> \<le> round_even q"
  by (simp add: round_even_def Let_def)

lemma binary64_nonneg:
  assumes "0 \<le> y"
  shows "0 \<le> binary64 y"
proof (cases "y = 0")
  case True
  then show ?thesis by (simp add: binary64_def)
next
  case False
  let ?u = "2 powr real_of_int (ulp_exponent y)"
  have u: "0 < ?u" by simp
  then have "0 \<le> y / ?u" using assms by simp
  then have "0 \<le> \<lfloor>y / ?u\<rfloor>" by simp
  then have "0 \<le> round_even (y / ?u)"
    using round_even_floor[of "y / ?u"] by linarith
  then have "0 \<le> real_of_int (round_even (y / ?u)) * ?u"
    using u by simp
  then show ?thesis using False by (simp add: binary64_def)
qed

lemma binary64_ge_pow2:
  assumes "2 ^ k \<le> y"
  shows "2 ^ k \<le> binary64 y"
proof -
  define e where "e = \<lfloor>log 2 y\<rfloor>"
  have "(0::real) < 2 ^ k" by simp
  with assms have y0: "0 < y" "y \<noteq> 0" "\<bar>y\<bar> = y" by linarith+
  have pk: "2 powr real k = (2::real) ^ k"
    using powr_realpow[of "2::real" k] by simp
  have "real k \<le> log 2 y"
    using assms y0 pk by (simp add: le_log_iff)
  then have "real_of_int (int k) \<le> log 2 y" by simp
  then have ek: "int k \<le> e" unfolding e_def by (simp only: le_floor_iff)
  then have ue: "ulp_exponent y = e - 52"
    unfolding ulp_exponent_def y0 e_def by linarith
  let ?u = "2 powr real_of_int (e - 52)"
  have u: "0 < ?u" by simp
  have "real_of_int e \<le> log 2 y" by (simp add: e_def)
  then have "2 powr real_of_int e \<le> 2 powr log 2 y" by simp
  then have le: "2 powr real_of_int e \<le> y" using y0 by simp
  have split: "2 powr real_of_int e = 2 ^ 52 * ?u"
  proof -
    have "2 powr real_of_int e = 2 powr (52 + real_of_int (e - 52))" by simp
    also have "\<dots> = 2 powr 52 * ?u" by (simp only: powr_add)
    also have "(2::real) powr 52 = 2 ^ 52"
      using powr_realpow[of "2::real" 52] by simp
    finally show ?thesis .
  qed
  have "2 ^ 52 * ?u \<le> y" using le split by simp
  then have "2 ^ 52 \<le> y / ?u" using u by (simp add: le_divide_eq)
  then have "real_of_int (2 ^ 52) \<le> y / ?u" by simp
  then have "2 ^ 52 \<le> \<lfloor>y / ?u\<rfloor>" by (simp only: le_floor_iff)
  then have "2 ^ 52 \<le> round_even (y / ?u)"
    using round_even_floor[of "y / ?u"] by linarith
  then have "real_of_int (2 ^ 52) \<le> real_of_int (round_even (y / ?u))"
    by (simp only: of_int_le_iff)
  then have "2 ^ 52 * ?u \<le> real_of_int (round_even (y / ?u)) * ?u"
    using u by simp
  then have "2 powr real_of_int e \<le> binary64 y"
    using split y0 by (simp add: binary64_def ue)
  moreover have "2 powr real_of_int (int k) \<le> 2 powr real_of_int e"
    using ek by simp
  moreover have "2 powr real_of_int (int k) = (2::real) ^ k"
    using pk by simp
  ultimately show ?thesis by linarith
qed

lemma fl_nonneg: "0 \<le> y \<Longrightarrow> nonneg (fl y)"
  using binary64_nonneg[of y] by (simp add: fl_def Let_def)

lemma fl_ge_pow2: "2 ^ k \<le> y \<Longrightarrow> fl y = PosInf \<or> (\<exists>z. fl y = Finite z \<and> 2 ^ k \<le> z)"
proof -
  assume "2 ^ k \<le> y"
  then have "2 ^ k \<le> binary64 y" by (rule binary64_ge_pow2)
  moreover have "- (2 ^ 1024) < (2::real) ^ k"
    by (rule less_le_trans[of _ 0]) simp_all
  ultimately have "\<not> binary64 y \<le> - (2 ^ 1024)" by linarith
  with \<open>2 ^ k \<le> binary64 y\<close> show ?thesis by (simp add: fl_def Let_def)
qed

lemma fl_ge_1: "1 \<le> y \<Longrightarrow> fl y = PosInf \<or> (\<exists>z. fl y = Finite z \<and> 1 \<le> z)"
  using fl_ge_pow2[of 0 y] by simp

lemma d_add_nonneg: "nonneg a \<Longrightarrow> nonneg b \<Longrightarrow> nonneg (d_add a b)"
  by (cases a; cases b) (simp_all add: fl_nonneg)

lemma d_gt_trans: "d_gt a b \<Longrightarrow> d_gt b c \<Longrightarrow> d_gt a c"
  by (cases a; cases b; cases c) simp_all

lemma d_gt_irrefl: "\<not> d_gt a a"
  by (cases a) simp_all

lemma d_le_gt_trans: "nonneg a \<Longrightarrow> nonneg b \<Longrightarrow> \<not> d_gt a b \<Longrightarrow> d_gt c b \<Longrightarrow> d_gt c a"
  by (cases a; cases b; cases c) simp_all

lemma d_gt_le_trans: "nonneg b \<Longrightarrow> nonneg c \<Longrightarrow> d_gt a b \<Longrightarrow> \<not> d_gt c b \<Longrightarrow> d_gt a c"
  by (cases a; cases b; cases c) simp_all

lemma d_le_trans:
  "nonneg a \<Longrightarrow> nonneg b \<Longrightarrow> nonneg c \<Longrightarrow> \<not> d_gt a b \<Longrightarrow> \<not> d_gt b c \<Longrightarrow> \<not> d_gt a c"
  by (cases a; cases b; cases c) simp_all

lemma nonneg_zero: "nonneg a \<Longrightarrow> \<not> d_gt a (Finite 0) \<Longrightarrow> a = Finite 0"
  by (cases a) simp_all

lemma nonneg_not_below: "nonneg a \<Longrightarrow> \<not> d_gt (Finite 0) a"
  by (cases a) simp_all

section \<open>Stopword filter\<close>

text \<open>
  The stopword tables, their counts and the numbering of \<open>IcelandicPos\<close> come from
  the generated header \<open>icelandic_fts_data.h\<close>; \<open>lowerstr\<close> is PostgreSQL's,
  \<open>u_isalpha\<close> is ICU's, \<open>log\<close> and \<open>exp\<close> are the C library's, whose results are
  not specified to the last bit. None of them is in the sources, so the model takes
  them as parameters, collected in one record. A count macro is the length of its table.
\<close>

record externals =
  ICELANDIC_STOPWORDS :: "bytes list"
  ICELANDIC_CONTEXTUAL_STOPWORDS :: "(bytes \<times> u16) list"
  pos_value :: "IcelandicPos \<Rightarrow> nat"
  lowerstr :: "bytes \<Rightarrow> bytes"
  u_isalpha :: "int \<Rightarrow> bool"
  libm_log :: "double \<Rightarrow> double"
  libm_exp :: "double \<Rightarrow> double"

text \<open>
  A candidate reading; the fields are \<open>lemma\<close>, \<open>pos\<close>, \<open>caseCode\<close>,
  \<open>genderCode\<close> and \<open>numberCode\<close> of the struct \<open>LemmaCandidate\<close>.
\<close>

record LemmaCandidate =
  c_lemma :: bytes
  c_pos :: IcelandicPos
  c_caseCode :: u8
  c_genderCode :: u8
  c_numberCode :: u8

text \<open>
  What \<open>lemma_is_disambiguate_bigram\<close> stores through its four out parameters when
  it returns true.
\<close>

record Disambiguated =
  out_lemma :: bytes
  out_pos :: IcelandicPos
  out_confidence :: double
  out_by_bigram :: bool

text \<open>
  The C library's \<open>bsearch\<close>, as a bisection of the half-open range of indices; the
  comparison function is applied to the key already.
\<close>

function bsearch_loop :: "('a \<Rightarrow> int) \<Rightarrow> 'a list \<Rightarrow> nat \<Rightarrow> nat \<Rightarrow> 'a option" where
  "bsearch_loop compar base l u =
     (if l < u then
        (let idx = (l + u) div 2; c = compar (base ! idx)
         in if c < 0 then bsearch_loop compar base l idx
            else if 0 < c then bsearch_loop compar base (idx + 1) u
            else Some (base ! idx))
      else None)"
  by pat_completeness auto
termination
  by (relation "measure (\<lambda>(compar, base, l, u). u - l)") auto

declare bsearch_loop.simps [simp del]

definition bsearch :: "('a \<Rightarrow> int) \<Rightarrow> 'a list \<Rightarrow> 'a option" where
  "bsearch compar base = bsearch_loop compar base 0 (length base)"

definition compare_stopword :: "bytes \<Rightarrow> bytes \<Rightarrow> int" where
  "compare_stopword key elem = strcmp key elem"

definition compare_contextual_stopword :: "bytes \<Rightarrow> bytes \<times> u16 \<Rightarrow> int" where
  "compare_contextual_stopword key elem = strcmp key (fst elem)"

definition lemma_is_stopword_simple :: "externals \<Rightarrow> bytes \<Rightarrow> bool" where
  "lemma_is_stopword_simple X lem =
     (if length (ICELANDIC_STOPWORDS X) = 0 then False
      else bsearch (compare_stopword lem) (ICELANDIC_STOPWORDS X) \<noteq> None)"

definition lemma_is_contextual_stopword :: "externals \<Rightarrow> bytes \<Rightarrow> IcelandicPos \<Rightarrow> bool" where
  "lemma_is_contextual_stopword X lem pos =
     (if length (ICELANDIC_CONTEXTUAL_STOPWORDS X) = 0 then lemma_is_stopword_simple X lem
      else
        (case bsearch (compare_contextual_stopword lem) (ICELANDIC_CONTEXTUAL_STOPWORDS X) of
           None \<Rightarrow> lemma_is_stopword_simple X lem
         | Some entry \<Rightarrow> (unat (snd entry) AND push_bit (pos_value X pos) 1) \<noteq> 0))"

text \<open>
  The part of the per-token loop that \<open>icelandic_fts_lemmas\<close> and
  \<open>icelandic_fts_query\<close> share: whether the disambiguated lemma is to be dropped, and
  the collection of the token's lemmas without repetition.
\<close>

definition filter_disambiguated :: "externals \<Rightarrow> Disambiguated option \<Rightarrow> bool" where
  "filter_disambiguated X d =
     (case d of
        None \<Rightarrow> False
      | Some r \<Rightarrow>
          if out_by_bigram r then lemma_is_contextual_stopword X (out_lemma r) (out_pos r)
          else False)"

fun token_lemmas_loop :: "bool \<Rightarrow> bytes option \<Rightarrow> LemmaCandidate list \<Rightarrow> bytes list \<Rightarrow> bytes list"
  where
  "token_lemmas_loop filt dl [] token_lemmas = token_lemmas"
| "token_lemmas_loop filt dl (c # cs) token_lemmas =
     (if list_ex (\<lambda>k. strcmp k (c_lemma c) = 0) token_lemmas
        then token_lemmas_loop filt dl cs token_lemmas
      else if filt \<and> (case dl of None \<Rightarrow> False | Some l \<Rightarrow> strcmp (c_lemma c) l = 0)
        then token_lemmas_loop filt dl cs token_lemmas
      else token_lemmas_loop filt dl cs (token_lemmas @ [c_lemma c]))"

definition token_lemmas_of ::
  "externals \<Rightarrow> Disambiguated option \<Rightarrow> LemmaCandidate list \<Rightarrow> bytes list" where
  "token_lemmas_of X d candidates =
     token_lemmas_loop (filter_disambiguated X d) (map_option out_lemma d) candidates []"

subsection \<open>Bisection over a sorted table\<close>

lemma bsearch_loop_None:
  "(\<And>k. l \<le> k \<Longrightarrow> k < u \<Longrightarrow> compar (base ! k) \<noteq> 0) \<Longrightarrow> bsearch_loop compar base l u = None"
proof (induction compar base l u rule: bsearch_loop.induct)
  case (1 compar base l u)
  show ?case
  proof (cases "l < u")
    case False
    then show ?thesis by (subst bsearch_loop.simps) simp
  next
    case True
    define idx where "idx = (l + u) div 2"
    have idx: "l \<le> idx" "idx < u" using True by (auto simp: idx_def)
    have nz: "compar (base ! idx) \<noteq> 0" using "1.prems" idx by blast
    show ?thesis
    proof (cases "compar (base ! idx) < 0")
      case lt: True
      have "bsearch_loop compar base l idx = None"
        using "1.IH"(1)[OF True idx_def refl lt] "1.prems" idx by auto
      then show ?thesis
        using True lt by (subst bsearch_loop.simps) (simp add: Let_def idx_def)
    next
      case ge: False
      then have gt: "0 < compar (base ! idx)" using nz by linarith
      have "bsearch_loop compar base (idx + 1) u = None"
        using "1.IH"(2)[OF True idx_def refl ge gt] "1.prems" idx by auto
      then show ?thesis
        using True ge gt by (subst bsearch_loop.simps) (simp add: Let_def idx_def)
    qed
  qed
qed

lemma bsearch_loop_Some:
  assumes "\<And>i j. i < j \<Longrightarrow> j < length base \<Longrightarrow> compar (base ! i) \<le> 0 \<Longrightarrow> compar (base ! j) < 0"
    and "l \<le> k" and "k < u" and "u \<le> length base" and "compar (base ! k) = 0"
  shows "bsearch_loop compar base l u = Some (base ! k)"
  using assms
proof (induction compar base l u rule: bsearch_loop.induct)
  case (1 compar base l u)
  define idx where "idx = (l + u) div 2"
  have lu: "l < u" using "1.prems" by linarith
  have idx: "l \<le> idx" "idx < u" using lu by (auto simp: idx_def)
  note mono = "1.prems"(1)
  show ?case
  proof (cases "compar (base ! idx) < 0")
    case lt: True
    have "k < idx"
    proof (rule ccontr)
      assume "\<not> k < idx"
      then consider "k = idx" | "idx < k" by linarith
      then show False
      proof cases
        case 1
        then show ?thesis using lt "1.prems"(5) by simp
      next
        case 2
        then have "compar (base ! k) < 0"
          using mono[of idx k] lt "1.prems"(3,4) by simp
        then show ?thesis using "1.prems"(5) by simp
      qed
    qed
    then have "bsearch_loop compar base l idx = Some (base ! k)"
      using "1.IH"(1)[OF lu idx_def refl lt] "1.prems" idx by auto
    then show ?thesis
      using lu lt by (subst bsearch_loop.simps) (simp add: Let_def idx_def)
  next
    case ge: False
    show ?thesis
    proof (cases "0 < compar (base ! idx)")
      case gt: True
      have "idx < k"
      proof (rule ccontr)
        assume "\<not> idx < k"
        then consider "k = idx" | "k < idx" by linarith
        then show False
        proof cases
          case 1
          then show ?thesis using gt "1.prems"(5) by simp
        next
          case 2
          then have "compar (base ! idx) < 0"
            using mono[of k idx] "1.prems"(4,5) idx by simp
          then show ?thesis using gt by simp
        qed
      qed
      then have "bsearch_loop compar base (idx + 1) u = Some (base ! k)"
        using "1.IH"(2)[OF lu idx_def refl ge gt] "1.prems" idx by auto
      then show ?thesis
        using lu ge gt by (subst bsearch_loop.simps) (simp add: Let_def idx_def)
    next
      case False
      with ge have z: "compar (base ! idx) = 0" by linarith
      have "idx = k"
      proof (rule ccontr)
        assume "idx \<noteq> k"
        then consider "idx < k" | "k < idx" by linarith
        then show False
        proof cases
          case 1
          then show ?thesis using mono[of idx k] z "1.prems"(3,4,5) by simp
        next
          case 2
          then show ?thesis using mono[of k idx] z "1.prems"(4,5) idx by simp
        qed
      qed
      then show ?thesis
        using lu z by (subst bsearch_loop.simps) (simp add: Let_def idx_def)
    qed
  qed
qed

lemma bsearch_found:
  assumes "sorted_wrt (\<lambda>a b. strcmp (kf a) (kf b) < 0) base" and "e \<in> set base"
  shows "bsearch (\<lambda>x. strcmp (kf e) (kf x)) base = Some e"
proof -
  from assms(2) obtain k where k: "k < length base" "base ! k = e"
    by (auto simp: in_set_conv_nth)
  have mono: "strcmp (kf e) (kf (base ! j)) < 0"
    if "i < j" "j < length base" "strcmp (kf e) (kf (base ! i)) \<le> 0" for i j
  proof -
    have "kf (base ! i) < kf (base ! j)"
      using assms(1) that(1,2) by (auto simp: sorted_wrt_iff_nth_less strcmp_less)
    moreover have "kf e \<le> kf (base ! i)"
      using that(3) strcmp_greater[of "kf e" "kf (base ! i)"] by (simp add: not_less[symmetric])
    ultimately show ?thesis by (simp add: strcmp_less)
  qed
  have "bsearch_loop (\<lambda>x. strcmp (kf e) (kf x)) base 0 (length base) = Some (base ! k)"
    by (rule bsearch_loop_Some) (use mono k in \<open>auto simp: strcmp_eq\<close>)
  then show ?thesis by (simp add: bsearch_def k)
qed

lemma bsearch_absent:
  assumes "key \<notin> kf ` set base"
  shows "bsearch (\<lambda>x. strcmp key (kf x)) base = None"
  unfolding bsearch_def
proof (rule bsearch_loop_None)
  fix k assume "0 \<le> k" "k < length base"
  then have "kf (base ! k) \<in> kf ` set base" by simp
  with assms show "strcmp key (kf (base ! k)) \<noteq> 0" by (auto simp: strcmp_eq)
qed

lemma stopword_simple_iff:
  assumes "sorted_wrt (\<lambda>a b. strcmp a b < 0) (ICELANDIC_STOPWORDS X)"
  shows "lemma_is_stopword_simple X lem \<longleftrightarrow> lem \<in> set (ICELANDIC_STOPWORDS X)"
proof (cases "lem \<in> set (ICELANDIC_STOPWORDS X)")
  case True
  then have "bsearch (\<lambda>x. strcmp lem x) (ICELANDIC_STOPWORDS X) = Some lem"
    using bsearch_found[of "\<lambda>x. x" "ICELANDIC_STOPWORDS X" lem] assms by simp
  moreover have "ICELANDIC_STOPWORDS X \<noteq> []" using True by auto
  ultimately show ?thesis
    using True by (simp add: lemma_is_stopword_simple_def compare_stopword_def[abs_def])
next
  case False
  then have "bsearch (\<lambda>x. strcmp lem x) (ICELANDIC_STOPWORDS X) = None"
    using bsearch_absent[of lem "\<lambda>x. x" "ICELANDIC_STOPWORDS X"] by simp
  then show ?thesis
    using False by (simp add: lemma_is_stopword_simple_def compare_stopword_def[abs_def])
qed

lemma token_lemmas_loop_set:
  "set (token_lemmas_loop filt dl cs acc) =
     set acc \<union> {c_lemma c | c. c \<in> set cs \<and> \<not> (filt \<and> dl = Some (c_lemma c))}"
proof (induction cs arbitrary: acc)
  case Nil
  then show ?case by simp
next
  case (Cons c cs)
  have seen: "list_ex (\<lambda>k. strcmp k (c_lemma c) = 0) acc \<longleftrightarrow> c_lemma c \<in> set acc"
    by (auto simp: list_ex_iff strcmp_eq)
  have dl: "(case dl of None \<Rightarrow> False | Some l \<Rightarrow> strcmp (c_lemma c) l = 0) \<longleftrightarrow> dl = Some (c_lemma c)"
    by (auto simp: strcmp_eq split: option.splits)
  let ?keep = "\<lambda>cs. {c_lemma c | c. c \<in> set cs \<and> \<not> (filt \<and> dl = Some (c_lemma c))}"
  consider (seen) "c_lemma c \<in> set acc"
    | (dropped) "c_lemma c \<notin> set acc" "filt \<and> dl = Some (c_lemma c)"
    | (kept) "c_lemma c \<notin> set acc" "\<not> (filt \<and> dl = Some (c_lemma c))"
    by blast
  then show ?case
  proof cases
    case seen
    then have "set (token_lemmas_loop filt dl (c # cs) acc) = set (token_lemmas_loop filt dl cs acc)"
      by (simp add: \<open>list_ex _ acc \<longleftrightarrow> _\<close>)
    also have "\<dots> = set acc \<union> ?keep cs" by (rule Cons.IH)
    also have "\<dots> = set acc \<union> ?keep (c # cs)" using seen by auto
    finally show ?thesis .
  next
    case dropped
    then have "set (token_lemmas_loop filt dl (c # cs) acc) = set (token_lemmas_loop filt dl cs acc)"
      by (simp add: \<open>list_ex _ acc \<longleftrightarrow> _\<close> strcmp_eq)
    also have "\<dots> = set acc \<union> ?keep cs" by (rule Cons.IH)
    also have "\<dots> = set acc \<union> ?keep (c # cs)" using dropped by auto
    finally show ?thesis .
  next
    case kept
    then have "set (token_lemmas_loop filt dl (c # cs) acc) =
        set (token_lemmas_loop filt dl cs (acc @ [c_lemma c]))"
      using dl by (auto simp: \<open>list_ex _ acc \<longleftrightarrow> _\<close>)
    also have "\<dots> = set (acc @ [c_lemma c]) \<union> ?keep cs" by (rule Cons.IH)
    also have "\<dots> = set acc \<union> ?keep (c # cs)" using kept by auto
    finally show ?thesis .
  qed
qed

lemma token_lemmas_loop_distinct:
  "distinct acc \<Longrightarrow> distinct (token_lemmas_loop filt dl cs acc)"
proof (induction cs arbitrary: acc)
  case Nil
  then show ?case by simp
next
  case (Cons c cs)
  have seen: "list_ex (\<lambda>k. strcmp k (c_lemma c) = 0) acc \<longleftrightarrow> c_lemma c \<in> set acc"
    by (auto simp: list_ex_iff strcmp_eq)
  show ?case
    unfolding token_lemmas_loop.simps seen using Cons by auto
qed

text \<open>
  Claim C9. The stopword test is made only for the disambiguated (lemma, tag) pair of
  a token whose disambiguation used bigrams, and only that lemma can be dropped from
  the token's lemmas; a token disambiguated without bigrams keeps the lemma of every
  candidate. With both tables sorted by \<open>strcmp\<close>, as \<open>bsearch\<close> requires, the test
  is: the bit of the tag in the mask of the lemma's entry when the contextual table is
  non-empty and has the lemma; membership in the plain list when the contextual table
  is non-empty and lacks the lemma; membership in the plain list when the contextual
  table is empty.
\<close>

theorem stopword_filter:
  assumes "sorted_wrt (\<lambda>a b. strcmp a b < 0) (ICELANDIC_STOPWORDS X)"
    and "sorted_wrt (\<lambda>a b. strcmp (fst a) (fst b) < 0) (ICELANDIC_CONTEXTUAL_STOPWORDS X)"
  shows "(filter_disambiguated X d \<longleftrightarrow>
            (\<exists>r. d = Some r \<and> out_by_bigram r
                 \<and> lemma_is_contextual_stopword X (out_lemma r) (out_pos r)))
    \<and> set (token_lemmas_of X d cands) =
        c_lemma ` set cands - (if filter_disambiguated X d then out_lemma ` set_option d else {})
    \<and> distinct (token_lemmas_of X d cands)
    \<and> ((\<forall>r. d = Some r \<longrightarrow> \<not> out_by_bigram r) \<longrightarrow>
          set (token_lemmas_of X d cands) = c_lemma ` set cands)
    \<and> (ICELANDIC_CONTEXTUAL_STOPWORDS X \<noteq> [] \<and> (lem, m) \<in> set (ICELANDIC_CONTEXTUAL_STOPWORDS X)
          \<longrightarrow> lemma_is_contextual_stopword X lem pos = bit (unat m) (pos_value X pos))
    \<and> (ICELANDIC_CONTEXTUAL_STOPWORDS X \<noteq> [] \<and> lem \<notin> fst ` set (ICELANDIC_CONTEXTUAL_STOPWORDS X)
          \<longrightarrow> lemma_is_contextual_stopword X lem pos = (lem \<in> set (ICELANDIC_STOPWORDS X)))
    \<and> (ICELANDIC_CONTEXTUAL_STOPWORDS X = []
          \<longrightarrow> lemma_is_contextual_stopword X lem pos = (lem \<in> set (ICELANDIC_STOPWORDS X)))"
proof -
  let ?ctx = "ICELANDIC_CONTEXTUAL_STOPWORDS X"
  have a: "filter_disambiguated X d \<longleftrightarrow>
            (\<exists>r. d = Some r \<and> out_by_bigram r
                 \<and> lemma_is_contextual_stopword X (out_lemma r) (out_pos r))"
    by (auto simp: filter_disambiguated_def split: option.splits)
  have b: "set (token_lemmas_of X d cands) =
        c_lemma ` set cands - (if filter_disambiguated X d then out_lemma ` set_option d else {})"
    unfolding token_lemmas_of_def token_lemmas_loop_set
    by (cases d) (auto simp: filter_disambiguated_def)
  have c: "distinct (token_lemmas_of X d cands)"
    unfolding token_lemmas_of_def by (rule token_lemmas_loop_distinct) simp
  have d: "(\<forall>r. d = Some r \<longrightarrow> \<not> out_by_bigram r) \<longrightarrow>
          set (token_lemmas_of X d cands) = c_lemma ` set cands"
    unfolding b using a by auto
  have e: "lemma_is_contextual_stopword X lem pos = bit (unat m) (pos_value X pos)"
    if "(lem, m) \<in> set ?ctx"
  proof -
    have "bsearch (\<lambda>x. strcmp (fst (lem, m)) (fst x)) ?ctx = Some (lem, m)"
      using assms(2) that by (rule bsearch_found)
    moreover have "?ctx \<noteq> []" using that by auto
    ultimately show ?thesis
      by (simp add: lemma_is_contextual_stopword_def compare_contextual_stopword_def[abs_def]
          bit_iff_and_push_bit_not_eq_0)
  qed
  have f: "lemma_is_contextual_stopword X lem pos = (lem \<in> set (ICELANDIC_STOPWORDS X))"
    if "lem \<notin> fst ` set ?ctx"
  proof -
    have "bsearch (\<lambda>x. strcmp lem (fst x)) ?ctx = None"
      using that by (rule bsearch_absent)
    then show ?thesis
      by (simp add: lemma_is_contextual_stopword_def compare_contextual_stopword_def[abs_def]
          stopword_simple_iff[OF assms(1)])
  qed
  have g: "lemma_is_contextual_stopword X lem pos = (lem \<in> set (ICELANDIC_STOPWORDS X))"
    if "?ctx = []"
    using that by (simp add: lemma_is_contextual_stopword_def stopword_simple_iff[OF assms(1)])
  show ?thesis using a b c d e f g by blast
qed

subsection \<open>A concrete instance of the external parameters\<close>

definition bytes_of :: "string \<Rightarrow> bytes" where
  "bytes_of s = map of_char s"

definition pos_index :: "IcelandicPos \<Rightarrow> nat" where
  "pos_index p =
     (case p of POS_NO \<Rightarrow> 0 | POS_SO \<Rightarrow> 1 | POS_LO \<Rightarrow> 2 | POS_AO \<Rightarrow> 3 | POS_FS \<Rightarrow> 4
      | POS_FN \<Rightarrow> 5 | POS_ST \<Rightarrow> 6 | POS_TO \<Rightarrow> 7 | POS_GR \<Rightarrow> 8 | POS_UH \<Rightarrow> 9)"

text \<open>
  Lower case for ASCII and for the two-byte UTF-8 letters U+00C0 to U+00DE, which is
  enough for the Icelandic alphabet, and the letters of ASCII and of U+00C0 to U+00FF.
\<close>

fun lower_utf8 :: "bytes \<Rightarrow> bytes" where
  "lower_utf8 (a # b # bs) =
     (if a = 0xC3 \<and> 0x80 \<le> b \<and> b \<le> 0x9E \<and> b \<noteq> 0x97 then a # (b + 0x20) # lower_utf8 bs
      else (if 0x41 \<le> a \<and> a \<le> 0x5A then a + 0x20 else a) # lower_utf8 (b # bs))"
| "lower_utf8 [a] = [if 0x41 \<le> a \<and> a \<le> 0x5A then a + 0x20 else a]"
| "lower_utf8 [] = []"

definition latin_alpha :: "int \<Rightarrow> bool" where
  "latin_alpha c \<longleftrightarrow>
     (0x41 \<le> c \<and> c \<le> 0x5A) \<or> (0x61 \<le> c \<and> c \<le> 0x7A)
     \<or> (0xC0 \<le> c \<and> c \<le> 0xFF \<and> c \<noteq> 0xD7 \<and> c \<noteq> 0xF7)"

text \<open>
  The logarithm and the exponential with correct rounding, and the results that the
  C standard gives for zero, negative numbers, infinities and NaN.
\<close>

definition rounded_log :: "double \<Rightarrow> double" where
  "rounded_log d =
     (case d of
        Finite x \<Rightarrow> if 0 < x then fl (ln x) else if x = 0 then NegInf else NaN
      | PosInf \<Rightarrow> PosInf
      | NegInf \<Rightarrow> NaN
      | NaN \<Rightarrow> NaN)"

definition rounded_exp :: "double \<Rightarrow> double" where
  "rounded_exp d =
     (case d of
        Finite x \<Rightarrow> fl (exp x)
      | PosInf \<Rightarrow> PosInf
      | NegInf \<Rightarrow> Finite 0
      | NaN \<Rightarrow> NaN)"

definition example_externals :: externals where
  "example_externals =
     \<lparr>ICELANDIC_STOPWORDS = [bytes_of ''og'', bytes_of ''sem''],
      ICELANDIC_CONTEXTUAL_STOPWORDS = [(bytes_of ''vera'', 2)],
      pos_value = pos_index,
      lowerstr = lower_utf8,
      u_isalpha = latin_alpha,
      libm_log = rounded_log,
      libm_exp = rounded_exp\<rparr>"

definition vera_verb :: Disambiguated where
  "vera_verb = \<lparr>out_lemma = bytes_of ''vera'', out_pos = POS_SO, out_confidence = Finite 1,
                 out_by_bigram = True\<rparr>"

definition vera_candidates :: "LemmaCandidate list" where
  "vera_candidates =
     [\<lparr>c_lemma = bytes_of ''vera'', c_pos = POS_SO, c_caseCode = 0, c_genderCode = 0,
       c_numberCode = 0\<rparr>,
      \<lparr>c_lemma = bytes_of ''ver'', c_pos = POS_NO, c_caseCode = 0, c_genderCode = 0,
       c_numberCode = 0\<rparr>]"

theorem stopword_filter_witness:
  "sorted_wrt (\<lambda>a b. strcmp a b < 0) (ICELANDIC_STOPWORDS example_externals)
   \<and> sorted_wrt (\<lambda>a b. strcmp (fst a) (fst b) < 0) (ICELANDIC_CONTEXTUAL_STOPWORDS example_externals)
   \<and> ICELANDIC_CONTEXTUAL_STOPWORDS example_externals \<noteq> []
   \<and> (bytes_of ''vera'', 2) \<in> set (ICELANDIC_CONTEXTUAL_STOPWORDS example_externals)
   \<and> lemma_is_contextual_stopword example_externals (bytes_of ''vera'') POS_SO
   \<and> filter_disambiguated example_externals (Some vera_verb)
   \<and> set (token_lemmas_of example_externals (Some vera_verb) vera_candidates) = {bytes_of ''ver''}
   \<and> set (token_lemmas_of example_externals (Some (vera_verb\<lparr>out_by_bigram := False\<rparr>))
            vera_candidates) = {bytes_of ''vera'', bytes_of ''ver''}"
proof -
  have h1: "sorted_wrt (\<lambda>a b. strcmp a b < 0) (ICELANDIC_STOPWORDS example_externals)"
    by (simp add: example_externals_def bytes_of_def)
  have h2: "sorted_wrt (\<lambda>a b. strcmp (fst a) (fst b) < 0)
      (ICELANDIC_CONTEXTUAL_STOPWORDS example_externals)"
    by (simp add: example_externals_def)
  have ne: "ICELANDIC_CONTEXTUAL_STOPWORDS example_externals \<noteq> []"
    and mem: "(bytes_of ''vera'', 2) \<in> set (ICELANDIC_CONTEXTUAL_STOPWORDS example_externals)"
    by (simp_all add: example_externals_def)
  have bit: "bit (unat (2 :: u16)) (pos_value example_externals POS_SO)"
    by (simp add: example_externals_def pos_index_def bit_iff_odd)
  note t1 = stopword_filter[OF h1 h2, of "Some vera_verb" vera_candidates "bytes_of ''vera''" 2 POS_SO]
  note t2 = stopword_filter[OF h1 h2, of "Some (vera_verb\<lparr>out_by_bigram := False\<rparr>)"
      vera_candidates "bytes_of ''vera''" 2 POS_SO]
  have sw: "lemma_is_contextual_stopword example_externals (bytes_of ''vera'') POS_SO"
    using t1 ne mem bit by simp
  have fd: "filter_disambiguated example_externals (Some vera_verb)"
    using t1 sw by (simp add: vera_verb_def)
  have s1: "set (token_lemmas_of example_externals (Some vera_verb) vera_candidates)
      = {bytes_of ''ver''}"
    using t1 fd by (auto simp: vera_candidates_def vera_verb_def bytes_of_def)
  have s2: "set (token_lemmas_of example_externals (Some (vera_verb\<lparr>out_by_bigram := False\<rparr>))
            vera_candidates) = {bytes_of ''vera'', bytes_of ''ver''}"
    using t2 by (auto simp: vera_candidates_def vera_verb_def)
  show ?thesis using h1 h2 ne mem sw fd s1 s2 by blast
qed

section \<open>Lookup indices\<close>

text \<open>
  \<open>ptr[idx]\<close> for the \<open>uint32\<close> and the \<open>uint8\<close> tables of the dictionary, and the
  use of a pointer that may be \<open>NULL\<close> (the bigram tables of a dictionary without
  bigrams).
\<close>

definition lemma_is_u32 :: "LemmaIsBinary \<Rightarrow> nat \<Rightarrow> u32 \<Rightarrow> u32 res" where
  "lemma_is_u32 bin ptr idx = in_bounds (rd_u32 (data bin) (ptr + 4 * unat idx))"

definition byte_at :: "LemmaIsBinary \<Rightarrow> nat \<Rightarrow> u32 \<Rightarrow> u8 res" where
  "byte_at bin ptr idx = in_bounds (rd_u8 (data bin) (ptr + unat idx))"

definition non_null :: "nat option \<Rightarrow> (nat \<Rightarrow> 'a res) \<Rightarrow> 'a res" where
  "non_null p k = (case p of None \<Rightarrow> Inl ReadOutOfBounds | Some q \<Rightarrow> k q)"

definition lemma_is_get_lemma :: "LemmaIsBinary \<Rightarrow> u32 \<Rightarrow> bytes res" where
  "lemma_is_get_lemma bin idx =
     seq (lemma_is_u32 bin (lemmaOffsets bin) idx) (\<lambda>offset.
     seq (byte_at bin (lemmaLengths bin) idx) (\<lambda>len.
       pnstrdup (data bin) (stringPool bin + unat offset) (unat len)))"

definition lemma_is_compare_word :: "LemmaIsBinary \<Rightarrow> u32 \<Rightarrow> bytes \<Rightarrow> int \<Rightarrow> int res" where
  "lemma_is_compare_word bin idx word word_len =
     seq (lemma_is_u32 bin (wordOffsets bin) idx) (\<lambda>offset.
     seq (byte_at bin (wordLengths bin) idx) (\<lambda>len.
       compare_view (data bin) (stringPool bin + unat offset) len word word_len))"

definition INT_MAX :: int where
  "INT_MAX = 2147483647"

text \<open>
  The loop of \<open>lemma_is_find_word\<close> and of \<open>lemma_is_find_bigram\<close>, which differ
  in the comparison only. \<open>left\<close>, \<open>right\<close> and \<open>mid\<close> are C \<open>int\<close>s; the sum
  \<open>left + right\<close> is the one operation on them that can leave the range of \<open>int\<close>.
\<close>

function find_loop :: "(u32 \<Rightarrow> int res) \<Rightarrow> int \<Rightarrow> int \<Rightarrow> int res" where
  "find_loop compare left right =
     (if left \<le> right then
        (if INT_MAX < left + right then Inl IntOverflow
         else
           (let mid = (left + right) div 2 in
            seq (compare (word_of_int mid)) (\<lambda>cmp.
              if cmp = 0 then Inr mid
              else if cmp < 0 then find_loop compare (mid + 1) right
              else find_loop compare left (mid - 1))))
      else Inr (- 1))"
  by pat_completeness auto
termination
  by (relation "measure (\<lambda>(compare, left, right). nat (right - left + 1))") auto

declare find_loop.simps [simp del]

definition lemma_is_find_word :: "LemmaIsBinary \<Rightarrow> bytes \<Rightarrow> int res" where
  "lemma_is_find_word bin word =
     find_loop (\<lambda>mid. lemma_is_compare_word bin mid word (int (length word)))
       0 (sint (wordCount bin) - 1)"

definition lemma_is_compare_bigram ::
  "LemmaIsBinary \<Rightarrow> u32 \<Rightarrow> bytes \<Rightarrow> int \<Rightarrow> bytes \<Rightarrow> int \<Rightarrow> int res" where
  "lemma_is_compare_bigram bin idx word1 word1_len word2 word2_len =
     non_null (bigramW1Offsets bin) (\<lambda>w1_offsets.
     seq (lemma_is_u32 bin w1_offsets idx) (\<lambda>w1_offset.
     non_null (bigramW1Lengths bin) (\<lambda>w1_lengths.
     seq (byte_at bin w1_lengths idx) (\<lambda>w1_len.
     seq (compare_view (data bin) (stringPool bin + unat w1_offset) w1_len word1 word1_len)
       (\<lambda>cmp.
         if cmp = 0 then
           non_null (bigramW2Offsets bin) (\<lambda>w2_offsets.
           seq (lemma_is_u32 bin w2_offsets idx) (\<lambda>w2_offset.
           non_null (bigramW2Lengths bin) (\<lambda>w2_lengths.
           seq (byte_at bin w2_lengths idx) (\<lambda>w2_len.
             compare_view (data bin) (stringPool bin + unat w2_offset) w2_len
               word2 word2_len))))
         else Inr cmp)))))"

definition lemma_is_find_bigram :: "LemmaIsBinary \<Rightarrow> bytes \<Rightarrow> bytes \<Rightarrow> int res" where
  "lemma_is_find_bigram bin word1 word2 =
     (if bigramCount bin = 0 then Inr (- 1)
      else find_loop
        (\<lambda>mid. lemma_is_compare_bigram bin mid word1 (int (length word1))
                  word2 (int (length word2)))
        0 (sint (bigramCount bin) - 1))"

definition lemma_is_bigram_freq :: "LemmaIsBinary \<Rightarrow> bytes \<Rightarrow> bytes \<Rightarrow> u32 res" where
  "lemma_is_bigram_freq bin word1 word2 =
     seq (lemma_is_find_bigram bin word1 word2) (\<lambda>idx.
       if idx < 0 then Inr 0
       else non_null (bigramFreqs bin) (\<lambda>freqs. lemma_is_u32 bin freqs (word_of_int idx)))"

text \<open>
  The content of the indices, as the strings and numbers a dictionary stores:
  \<open>stored_string\<close> is the string of entry \<open>i\<close> of a table of (offset, length) views
  when the view and the string lie in the buffer.
\<close>

definition stored_string :: "LemmaIsBinary \<Rightarrow> nat \<Rightarrow> nat \<Rightarrow> nat \<Rightarrow> bytes option" where
  "stored_string bin offsets lengths i =
     (case rd_u32 (data bin) (offsets + 4 * i) of
        None \<Rightarrow> None
      | Some off \<Rightarrow>
          (case rd_u8 (data bin) (lengths + i) of
             None \<Rightarrow> None
           | Some len \<Rightarrow> rd_mem (data bin) (stringPool bin + unat off) (unat len)))"

definition word_at :: "LemmaIsBinary \<Rightarrow> nat \<Rightarrow> bytes option" where
  "word_at bin i = stored_string bin (wordOffsets bin) (wordLengths bin) i"

definition word_index :: "LemmaIsBinary \<Rightarrow> bytes list \<Rightarrow> bool" where
  "word_index bin ws \<longleftrightarrow>
     length ws = unat (wordCount bin) \<and> (\<forall>i < length ws. word_at bin i = Some (ws ! i))"

definition bigram_at :: "LemmaIsBinary \<Rightarrow> nat \<Rightarrow> ((bytes \<times> bytes) \<times> u32) option" where
  "bigram_at bin i =
     (case (bigramW1Offsets bin, bigramW1Lengths bin, bigramW2Offsets bin,
            bigramW2Lengths bin, bigramFreqs bin) of
        (Some o1, Some l1, Some o2, Some l2, Some fr) \<Rightarrow>
          (case (stored_string bin o1 l1 i, stored_string bin o2 l2 i,
                 rd_u32 (data bin) (fr + 4 * i)) of
             (Some w1, Some w2, Some f) \<Rightarrow> Some ((w1, w2), f)
           | _ \<Rightarrow> None)
      | _ \<Rightarrow> None)"

definition bigram_index :: "LemmaIsBinary \<Rightarrow> ((bytes \<times> bytes) \<times> u32) list \<Rightarrow> bool" where
  "bigram_index bin bs \<longleftrightarrow>
     length bs = unat (bigramCount bin) \<and> (\<forall>i < length bs. bigram_at bin i = Some (bs ! i))"

definition cmp_pair :: "bytes \<times> bytes \<Rightarrow> bytes \<times> bytes \<Rightarrow> int" where
  "cmp_pair stored query =
     (let c = cmp_bytes (fst stored) (fst query)
      in if c = 0 then cmp_bytes (snd stored) (snd query) else c)"

subsection \<open>The bisection loop\<close>

lemma find_loop_absent:
  assumes "\<And>m. 0 \<le> m \<Longrightarrow> m < n \<Longrightarrow> compare (word_of_int m) = Inr (c m)"
    and "\<And>m. left \<le> m \<Longrightarrow> m \<le> right \<Longrightarrow> c m \<noteq> 0"
    and "0 \<le> left" and "right < n" and "n \<le> 2 ^ 30"
  shows "find_loop compare left right = Inr (- 1)"
  using assms
proof (induction compare left right rule: find_loop.induct)
  case (1 compare left right)
  show ?case
  proof (cases "left \<le> right")
    case False
    then show ?thesis by (subst find_loop.simps) simp
  next
    case True
    define mid where "mid = (left + right) div 2"
    have mid: "left \<le> mid" "mid \<le> right" using True by (auto simp: mid_def)
    have no: "\<not> INT_MAX < left + right" using "1.prems"(4,5) True by (simp add: INT_MAX_def)
    have rd: "compare (word_of_int mid) = Inr (c mid)"
      using "1.prems"(1)[of mid] mid "1.prems"(3,4) by simp
    have nz: "c mid \<noteq> 0" using "1.prems"(2) mid by simp
    show ?thesis
    proof (cases "c mid < 0")
      case lt: True
      have "find_loop compare (mid + 1) right = Inr (- 1)"
        using "1.IH"(1)[OF True no mid_def rd nz lt] "1.prems" mid by simp
      then show ?thesis
        using True no rd nz lt by (subst find_loop.simps) (simp add: Let_def mid_def[symmetric])
    next
      case ge: False
      have "find_loop compare left (mid - 1) = Inr (- 1)"
        using "1.IH"(2)[OF True no mid_def rd nz ge] "1.prems" mid by simp
      then show ?thesis
        using True no rd nz ge by (subst find_loop.simps) (simp add: Let_def mid_def[symmetric])
    qed
  qed
qed

lemma find_loop_found:
  assumes "\<And>m. 0 \<le> m \<Longrightarrow> m < n \<Longrightarrow> compare (word_of_int m) = Inr (c m)"
    and "\<And>i j. 0 \<le> i \<Longrightarrow> i < j \<Longrightarrow> j < n \<Longrightarrow> c j < 0 \<Longrightarrow> c i < 0"
    and "\<And>i j. 0 \<le> i \<Longrightarrow> i < j \<Longrightarrow> j < n \<Longrightarrow> 0 < c i \<Longrightarrow> 0 < c j"
    and "\<And>m. 0 \<le> m \<Longrightarrow> m < n \<Longrightarrow> m \<noteq> k \<Longrightarrow> c m \<noteq> 0"
    and "c k = 0" and "left \<le> k" and "k \<le> right"
    and "0 \<le> left" and "right < n" and "n \<le> 2 ^ 30"
  shows "find_loop compare left right = Inr k"
  using assms
proof (induction compare left right rule: find_loop.induct)
  case (1 compare left right)
  define mid where "mid = (left + right) div 2"
  have lr: "left \<le> right" using "1.prems"(6,7) by linarith
  have mid: "left \<le> mid" "mid \<le> right" using lr by (auto simp: mid_def)
  have no: "\<not> INT_MAX < left + right" using "1.prems"(9,10) lr by (simp add: INT_MAX_def)
  have rd: "compare (word_of_int mid) = Inr (c mid)"
    using "1.prems"(1)[of mid] mid "1.prems"(8,9) by simp
  have kn: "0 \<le> k" "k < n" using "1.prems"(6,7,8,9) by linarith+
  have mn: "0 \<le> mid" "mid < n" using mid "1.prems"(8,9) by linarith+
  show ?case
  proof (cases "c mid = 0")
    case True
    then have "mid = k" using "1.prems"(4)[of mid] mn by blast
    then show ?thesis
      using lr no rd True by (subst find_loop.simps) (simp add: Let_def mid_def[symmetric])
  next
    case nz: False
    show ?thesis
    proof (cases "c mid < 0")
      case lt: True
      have "mid < k"
      proof (rule ccontr)
        assume "\<not> mid < k"
        with nz "1.prems"(5) have "k < mid" by (cases "k = mid") auto
        then have "c k < 0" using "1.prems"(2)[of k mid] kn mn lt by simp
        then show False using "1.prems"(5) by simp
      qed
      then have "find_loop compare (mid + 1) right = Inr k"
        using "1.IH"(1)[OF lr no mid_def rd nz lt] "1.prems" mid by simp
      then show ?thesis
        using lr no rd nz lt by (subst find_loop.simps) (simp add: Let_def mid_def[symmetric])
    next
      case ge: False
      then have gt: "0 < c mid" using nz by linarith
      have "k < mid"
      proof (rule ccontr)
        assume "\<not> k < mid"
        with nz "1.prems"(5) have "mid < k" by (cases "k = mid") auto
        then have "0 < c k" using "1.prems"(3)[of mid k] kn mn gt by simp
        then show False using "1.prems"(5) by simp
      qed
      then have "find_loop compare left (mid - 1) = Inr k"
        using "1.IH"(2)[OF lr no mid_def rd nz ge] "1.prems" mid by simp
      then show ?thesis
        using lr no rd nz ge by (subst find_loop.simps) (simp add: Let_def mid_def[symmetric])
    qed
  qed
qed

subsection \<open>What a loaded dictionary satisfies\<close>

lemma sint_small: "unat (w::u32) < 2 ^ 31 \<Longrightarrow> sint w = int (unat w)"
proof -
  assume a: "unat w < 2 ^ 31"
  have u: "uint w = int (unat w)" by (rule uint_nat)
  have "int (unat w) < int (2 ^ 31)" using a by (simp only: of_nat_less_iff)
  then have lt: "uint w < 2 ^ 31" by simp
  have ge: "- (2 ^ 31) \<le> uint w"
  proof -
    have "(0::int) \<le> uint w" by simp
    moreover have "- (2 ^ 31) \<le> (0::int)" by simp
    ultimately show ?thesis by (rule order_trans[rotated])
  qed
  have "sint w = signed_take_bit (LENGTH(32) - Suc 0) (uint w)" by (rule sint_uint)
  also have "LENGTH(32) - Suc 0 = 31" by simp
  also have "signed_take_bit 31 (uint w) = uint w"
    using ge lt by (rule signed_take_bit_int_eq_self)
  finally show ?thesis by (simp only: u)
qed

lemma unat_word_of_int_small:
  "0 \<le> m \<Longrightarrow> m < 2 ^ 32 \<Longrightarrow> unat (word_of_int m :: u32) = nat m"
  by (simp add: unat_eq_nat_uint uint_word_of_int)

definition bigram_layout :: "LemmaIsBinary \<Rightarrow> bool" where
  "bigram_layout bin \<longleftrightarrow>
     (if bigramCount bin = 0
      then bigramW1Offsets bin = None \<and> bigramW1Lengths bin = None
           \<and> bigramW2Offsets bin = None \<and> bigramW2Lengths bin = None
           \<and> bigramFreqs bin = None
      else (\<exists>o1 o2 o3 o4 o5.
              bigramW1Offsets bin = Some o1 \<and> bigramW1Lengths bin = Some o2
              \<and> bigramW2Offsets bin = Some o3 \<and> bigramW2Lengths bin = Some o4
              \<and> bigramFreqs bin = Some o5
              \<and> o1 = align4 (entries bin + unat (entryCount bin) * 4)
              \<and> o2 = o1 + unat (bigramCount bin) * 4
              \<and> o3 = align4 (o2 + unat (bigramCount bin))
              \<and> o4 = o3 + unat (bigramCount bin) * 4
              \<and> o5 = align4 (o4 + unat (bigramCount bin))
              \<and> o5 + unat (bigramCount bin) * 4 \<le> length (data bin)))"

definition layout :: "LemmaIsBinary \<Rightarrow> bool" where
  "layout bin \<longleftrightarrow>
     size' bin = length (data bin) \<and> length (data bin) \<le> MaxAllocSize
     \<and> (version bin = 1 \<or> version bin = 2)
     \<and> stringPool bin = 32
     \<and> lemmaOffsets bin = 32 + unat (stringPoolSize bin)
     \<and> lemmaLengths bin = lemmaOffsets bin + unat (lemmaCount bin) * 4
     \<and> wordOffsets bin = align4 (lemmaLengths bin + unat (lemmaCount bin))
     \<and> wordLengths bin = wordOffsets bin + unat (wordCount bin) * 4
     \<and> entryOffsets bin = align4 (wordLengths bin + unat (wordCount bin))
     \<and> entries bin = entryOffsets bin + unat (wordCount bin + 1) * 4
     \<and> entries bin + unat (entryCount bin) * 4 \<le> length (data bin)
     \<and> bigram_layout bin"

lemma layoutD:
  assumes "layout bin"
  shows "size' bin = length (data bin)" and "length (data bin) \<le> MaxAllocSize"
    and "version bin = 1 \<or> version bin = 2"
    and "stringPool bin = 32"
    and "lemmaOffsets bin = 32 + unat (stringPoolSize bin)"
    and "lemmaLengths bin = lemmaOffsets bin + unat (lemmaCount bin) * 4"
    and "wordOffsets bin = align4 (lemmaLengths bin + unat (lemmaCount bin))"
    and "wordLengths bin = wordOffsets bin + unat (wordCount bin) * 4"
    and "entryOffsets bin = align4 (wordLengths bin + unat (wordCount bin))"
    and "entries bin = entryOffsets bin + unat (wordCount bin + 1) * 4"
    and "entries bin + unat (entryCount bin) * 4 \<le> length (data bin)"
    and "bigram_layout bin"
  using assms unfolding layout_def by blast+

lemma load_tables_layout:
  assumes "load_tables buf ver sps lc wc ec bc = Loaded bin"
    and "length buf \<le> MaxAllocSize" and "ver = 1 \<or> ver = 2"
  shows "layout bin \<and> data bin = buf"
proof -
  have z: "bc = 0 \<longleftrightarrow> unat bc = 0" by (simp add: unat_eq_0)
  show ?thesis
    using assms
    by (auto simp: load_tables_def load_bigrams_def layout_def bigram_layout_def Let_def z
        split: if_splits)
qed

lemma loaded_layout:
  assumes "lemma_is_load_binary buf = Loaded bin"
  shows "layout bin \<and> data bin = buf"
proof -
  from assms have sz: "length buf \<le> MaxAllocSize"
    by (auto simp: lemma_is_load_binary_def split: if_splits)
  from assms obtain ver sps lc wc ec bc
    where "load_tables buf ver sps lc wc ec bc = Loaded bin" "ver = 1 \<or> ver = 2"
    by (auto simp: lemma_is_load_binary_def hdr_def split: if_splits option.splits)
  then show ?thesis using sz by (intro load_tables_layout)
qed

subsection \<open>Searching the indices of a loaded dictionary\<close>

lemma pad_le_align4: "n \<le> align4 n"
  unfolding align4_def by presburger

lemma layout_counts:
  assumes "layout bin"
  shows "unat (wordCount bin) < 2 ^ 28" and "unat (bigramCount bin) < 2 ^ 28"
proof -
  note L = layoutD[OF assms]
  let ?n = "length (data bin)"
  have sz: "?n \<le> 1073741823" using L(2) by (simp add: MaxAllocSize_def)
  have "wordLengths bin + unat (wordCount bin) \<le> entryOffsets bin"
    unfolding L(9) by (rule pad_le_align4)
  then have "unat (wordCount bin) * 4 \<le> ?n"
    using L(8,10,11) by linarith
  then show "unat (wordCount bin) < 2 ^ 28" using sz by simp
  show "unat (bigramCount bin) < 2 ^ 28"
  proof (cases "bigramCount bin = 0")
    case True
    then show ?thesis by simp
  next
    case False
    then obtain o5 where "o5 + unat (bigramCount bin) * 4 \<le> ?n"
      using L(12) by (auto simp: bigram_layout_def)
    then show ?thesis using sz by simp
  qed
qed

lemma find_loop_result:
  assumes "\<And>m. 0 \<le> m \<Longrightarrow> m < n \<Longrightarrow> compare (word_of_int m) = Inr (c m)"
    and "0 \<le> left" and "right < n" and "n \<le> 2 ^ 30"
  shows "\<exists>k. find_loop compare left right = Inr k
            \<and> (k = - 1 \<or> left \<le> k \<and> k \<le> right \<and> c k = 0)"
  using assms
proof (induction compare left right rule: find_loop.induct)
  case (1 compare left right)
  show ?case
  proof (cases "left \<le> right")
    case False
    then show ?thesis by (subst find_loop.simps) simp
  next
    case True
    define mid where "mid = (left + right) div 2"
    have mid: "left \<le> mid" "mid \<le> right" using True by (auto simp: mid_def)
    have no: "\<not> INT_MAX < left + right" using "1.prems"(3,4) True by (simp add: INT_MAX_def)
    have rd: "compare (word_of_int mid) = Inr (c mid)"
      using "1.prems"(1)[of mid] mid "1.prems"(2,3) by simp
    consider (eq) "c mid = 0" | (lt) "c mid \<noteq> 0" "c mid < 0" | (gt) "c mid \<noteq> 0" "\<not> c mid < 0"
      by blast
    then show ?thesis
    proof cases
      case eq
      then show ?thesis
        using True no rd mid by (subst find_loop.simps) (simp add: Let_def mid_def[symmetric])
    next
      case lt
      obtain k where "find_loop compare (mid + 1) right = Inr k"
        "k = - 1 \<or> mid + 1 \<le> k \<and> k \<le> right \<and> c k = 0"
        using "1.IH"(1)[OF True no mid_def rd lt] "1.prems" mid by auto
      then show ?thesis
        using True no rd lt mid by (subst find_loop.simps) (auto simp: Let_def mid_def[symmetric])
    next
      case gt
      obtain k where "find_loop compare left (mid - 1) = Inr k"
        "k = - 1 \<or> left \<le> k \<and> k \<le> mid - 1 \<and> c k = 0"
        using "1.IH"(2)[OF True no mid_def rd gt] "1.prems" mid by auto
      then show ?thesis
        using True no rd gt mid by (subst find_loop.simps) (auto simp: Let_def mid_def[symmetric])
    qed
  qed
qed

lemma stored_compare:
  assumes "stored_string bin offs lens i = Some s" and "i < 2 ^ 32"
  shows "seq (lemma_is_u32 bin offs (word_of_nat i)) (\<lambda>offset.
         seq (byte_at bin lens (word_of_nat i)) (\<lambda>len.
           compare_view (data bin) (stringPool bin + unat offset) len w (int (length w))))
         = Inr (cmp_bytes s w)"
proof -
  have i: "unat (word_of_nat i :: u32) = i" using assms(2) by (simp add: unat_of_nat)
  from assms(1) obtain off len where
    o: "rd_u32 (data bin) (offs + 4 * i) = Some off" and
    l: "rd_u8 (data bin) (lens + i) = Some len" and
    s: "rd_mem (data bin) (stringPool bin + unat off) (unat len) = Some s"
    by (auto simp: stored_string_def split: option.splits)
  show ?thesis
    by (simp add: lemma_is_u32_def byte_at_def i o l in_bounds_def
        compare_view_in_bounds[OF s])
qed

lemma compare_word_stored:
  assumes "word_index bin ws" and "0 \<le> m" and "m < int (length ws)" and "length ws < 2 ^ 28"
  shows "lemma_is_compare_word bin (word_of_int m) w (int (length w))
         = Inr (cmp_bytes (ws ! nat m) w)"
proof -
  have nm: "nat m < length ws" using assms(2,3) by linarith
  have st: "stored_string bin (wordOffsets bin) (wordLengths bin) (nat m) = Some (ws ! nat m)"
    using assms(1) nm unfolding word_index_def word_at_def by blast
  have "nat m < 2 ^ 32" using assms(3,4) by simp
  from stored_compare[OF st this, of w] show ?thesis
    using assms(2) by (simp add: lemma_is_compare_word_def)
qed

lemma cmp_pair_less: "cmp_pair a b < 0 \<longleftrightarrow> a < b"
  by (cases a; cases b) (auto simp: cmp_pair_def Let_def cmp_bytes_less cmp_bytes_eq less_prod_def)

lemma cmp_pair_eq: "cmp_pair a b = 0 \<longleftrightarrow> a = b"
  by (cases a; cases b) (auto simp: cmp_pair_def Let_def cmp_bytes_eq)

lemma cmp_pair_greater: "0 < cmp_pair a b \<longleftrightarrow> b < a"
proof -
  have "0 < cmp_pair a b \<longleftrightarrow> \<not> cmp_pair a b < 0 \<and> cmp_pair a b \<noteq> 0" by linarith
  then show ?thesis unfolding cmp_pair_less cmp_pair_eq by auto
qed

lemma compare_bigram_stored:
  assumes "bigram_index bin bs" and "0 \<le> m" and "m < int (length bs)" and "length bs < 2 ^ 28"
  shows "lemma_is_compare_bigram bin (word_of_int m) w1 (int (length w1)) w2 (int (length w2))
         = Inr (cmp_pair (fst (bs ! nat m)) (w1, w2))"
proof -
  have nm: "nat m < length bs" using assms(2,3) by linarith
  have at: "bigram_at bin (nat m) = Some (bs ! nat m)"
    using assms(1) nm unfolding bigram_index_def by blast
  obtain a1 a2 f where b: "bs ! nat m = ((a1, a2), f)" by (metis surj_pair)
  from at[unfolded b] obtain o1 l1 o2 l2 where
    p: "bigramW1Offsets bin = Some o1" "bigramW1Lengths bin = Some l1"
       "bigramW2Offsets bin = Some o2" "bigramW2Lengths bin = Some l2" and
    s1: "stored_string bin o1 l1 (nat m) = Some a1" and
    s2: "stored_string bin o2 l2 (nat m) = Some a2"
    by (auto simp: bigram_at_def split: option.splits)
  have lt: "nat m < 2 ^ 32" using assms(3,4) by simp
  have wm: "(word_of_int m :: u32) = word_of_nat (nat m)" using assms(2) by simp
  have c1: "seq (lemma_is_u32 bin o1 (word_of_int m)) (\<lambda>off.
         seq (byte_at bin l1 (word_of_int m)) (\<lambda>len.
           compare_view (data bin) (stringPool bin + unat off) len w1 (int (length w1))))
         = Inr (cmp_bytes a1 w1)"
    unfolding wm by (rule stored_compare[OF s1 lt])
  have c2: "seq (lemma_is_u32 bin o2 (word_of_int m)) (\<lambda>off.
         seq (byte_at bin l2 (word_of_int m)) (\<lambda>len.
           compare_view (data bin) (stringPool bin + unat off) len w2 (int (length w2))))
         = Inr (cmp_bytes a2 w2)"
    unfolding wm by (rule stored_compare[OF s2 lt])
  obtain off1 len1 where r1: "lemma_is_u32 bin o1 (word_of_int m) = Inr off1"
    "byte_at bin l1 (word_of_int m) = Inr len1"
    "compare_view (data bin) (stringPool bin + unat off1) len1 w1 (int (length w1))
      = Inr (cmp_bytes a1 w1)"
    using c1 by (auto simp: seq_def split: sum.splits)
  show ?thesis
    unfolding lemma_is_compare_bigram_def
    using c2 by (simp add: p non_null_def r1 b cmp_pair_def Let_def)
qed

lemma find_sorted:
  fixes keys :: "'k::linorder list"
  assumes rd: "\<And>m. 0 \<le> m \<Longrightarrow> m < int (length keys) \<Longrightarrow> compare (word_of_int m) = Inr (c m)"
    and sign: "\<And>m. 0 \<le> m \<Longrightarrow> m < int (length keys) \<Longrightarrow>
                (c m < 0 \<longleftrightarrow> keys ! nat m < key) \<and> (c m = 0 \<longleftrightarrow> keys ! nat m = key)"
    and srt: "sorted keys" and len: "length keys < 2 ^ 28"
  shows "key \<notin> set keys \<Longrightarrow> find_loop compare 0 (int (length keys) - 1) = Inr (- 1)"
    and "i < length keys \<Longrightarrow> keys ! i = key \<Longrightarrow> (\<forall>j < length keys. j \<noteq> i \<longrightarrow> keys ! j \<noteq> key)
         \<Longrightarrow> find_loop compare 0 (int (length keys) - 1) = Inr (int i)"
    and "\<exists>k. find_loop compare 0 (int (length keys) - 1) = Inr k
            \<and> (k = - 1 \<or> 0 \<le> k \<and> k < int (length keys) \<and> keys ! nat k = key)"
proof -
  let ?n = "int (length keys)"
  have n: "?n \<le> 2 ^ 30" using len by simp
  {
    assume "key \<notin> set keys"
    then have nz: "c m \<noteq> 0" if "0 \<le> m" "m \<le> ?n - 1" for m
      using sign[of m] that by (auto simp: in_set_conv_nth)
    show "find_loop compare 0 (?n - 1) = Inr (- 1)"
      by (rule find_loop_absent[where n = ?n and c = c]) (use rd nz n in auto)
  }
  {
    assume i: "i < length keys" "keys ! i = key"
      and u: "\<forall>j < length keys. j \<noteq> i \<longrightarrow> keys ! j \<noteq> key"
    have m1: "c a < 0" if "0 \<le> a" "a < b" "b < ?n" "c b < 0" for a b
    proof -
      have "keys ! nat a \<le> keys ! nat b"
        using srt that(1,2,3) by (intro sorted_nth_mono) auto
      moreover have "keys ! nat b < key" using sign[of b] that by simp
      ultimately show ?thesis using sign[of a] that by simp
    qed
    have m2: "0 < c b" if "0 \<le> a" "a < b" "b < ?n" "0 < c a" for a b
    proof -
      have le: "keys ! nat a \<le> keys ! nat b"
        using srt that(1,2,3) by (intro sorted_nth_mono) auto
      have "\<not> keys ! nat a < key" "keys ! nat a \<noteq> key" using sign[of a] that by auto
      then have "key < keys ! nat a" by simp
      with le have "key < keys ! nat b" by simp
      then have "\<not> keys ! nat b < key" "keys ! nat b \<noteq> key" by auto
      then have "\<not> c b < 0" "c b \<noteq> 0" using sign[of b] that by auto
      then show ?thesis by linarith
    qed
    have un: "c m \<noteq> 0" if "0 \<le> m" "m < ?n" "m \<noteq> int i" for m
    proof -
      have "nat m < length keys" "nat m \<noteq> i" using that by auto
      then have "keys ! nat m \<noteq> key" using u by blast
      then show ?thesis using sign[of m] that by simp
    qed
    have ck: "c (int i) = 0" using sign[of "int i"] i by simp
    show "find_loop compare 0 (?n - 1) = Inr (int i)"
      by (rule find_loop_found[where n = ?n and c = c])
        (use rd m1 m2 un ck i n in auto)
  }
  have "\<exists>k. find_loop compare 0 (?n - 1) = Inr k \<and> (k = - 1 \<or> 0 \<le> k \<and> k \<le> ?n - 1 \<and> c k = 0)"
    by (rule find_loop_result[where n = ?n]) (use rd n in auto)
  then obtain k where k: "find_loop compare 0 (?n - 1) = Inr k"
    "k = - 1 \<or> 0 \<le> k \<and> k \<le> ?n - 1 \<and> c k = 0" by blast
  have "k = - 1 \<or> 0 \<le> k \<and> k < ?n \<and> keys ! nat k = key"
    using k(2) sign[of k] by auto
  with k(1) show "\<exists>k. find_loop compare 0 (?n - 1) = Inr k
            \<and> (k = - 1 \<or> 0 \<le> k \<and> k < ?n \<and> keys ! nat k = key)" by blast
qed

lemma sorted_by_cmp_bytes: "sorted_wrt (\<lambda>a b. cmp_bytes a b \<le> 0) ws \<longleftrightarrow> sorted ws"
proof -
  have "(\<lambda>a b. cmp_bytes a b \<le> 0) = (\<le>)"
    using cmp_bytes_greater by (intro ext) (simp add: not_less[symmetric])
  then show ?thesis by simp
qed

lemma sorted_by_cmp_pair:
  fixes bs :: "((bytes \<times> bytes) \<times> u32) list"
  shows "sorted_wrt (\<lambda>a b. cmp_pair (fst a) (fst b) \<le> 0) bs \<longleftrightarrow> sorted (map fst bs)"
proof -
  have e: "(\<lambda>a b. cmp_pair (fst a) (fst b) \<le> 0) = (\<lambda>a b :: (bytes \<times> bytes) \<times> u32. fst a \<le> fst b)"
    using cmp_pair_greater by (intro ext) (simp add: not_less[symmetric])
  show ?thesis unfolding e by (simp add: sorted_wrt_map)
qed

text \<open>
  Claim C5. In a loaded dictionary whose word index is sorted by the comparator of the
  code (bytes, then length), \<open>lemma_is_find_word\<close> returns \<open>-1\<close> for a key that is
  not in the index, in particular for one below the first or above the last entry, and
  the index of a key that is there exactly once. The same holds for
  \<open>lemma_is_find_bigram\<close> and the bigram index sorted by the two-level comparator.
  \<open>lemma_is_bigram_freq\<close> always returns a number: 0 when the pair is not found,
  the stored frequency when it is; with \<open>bigramCount = 0\<close> it returns 0 without a
  search, whatever the bigram pointers are.
\<close>

theorem index_search:
  assumes "lemma_is_load_binary buf = Loaded bin"
    and "word_index bin ws" and "sorted_wrt (\<lambda>a b. cmp_bytes a b \<le> 0) ws"
    and "bigram_index bin bs" and "sorted_wrt (\<lambda>a b. cmp_pair (fst a) (fst b) \<le> 0) bs"
  shows "(w \<notin> set ws \<longrightarrow> lemma_is_find_word bin w = Inr (- 1))
    \<and> (\<forall>i < length ws. ws ! i = w \<and> (\<forall>j < length ws. j \<noteq> i \<longrightarrow> ws ! j \<noteq> w)
          \<longrightarrow> lemma_is_find_word bin w = Inr (int i))
    \<and> ((w1, w2) \<notin> fst ` set bs \<longrightarrow>
          lemma_is_find_bigram bin w1 w2 = Inr (- 1) \<and> lemma_is_bigram_freq bin w1 w2 = Inr 0)
    \<and> (\<forall>i < length bs. fst (bs ! i) = (w1, w2)
            \<and> (\<forall>j < length bs. j \<noteq> i \<longrightarrow> fst (bs ! j) \<noteq> (w1, w2))
          \<longrightarrow> lemma_is_find_bigram bin w1 w2 = Inr (int i)
              \<and> lemma_is_bigram_freq bin w1 w2 = Inr (snd (bs ! i)))
    \<and> (\<exists>f. lemma_is_bigram_freq bin w1 w2 = Inr f)
    \<and> (\<forall>b. bigramCount b = 0 \<longrightarrow>
          lemma_is_find_bigram b w1 w2 = Inr (- 1) \<and> lemma_is_bigram_freq b w1 w2 = Inr 0)"
proof -
  have lay: "layout bin" using loaded_layout[OF assms(1)] by simp
  note cnt = layout_counts[OF lay]
  have lw: "length ws < 2 ^ 28" using assms(2) cnt(1) by (simp add: word_index_def)
  have lb: "length bs < 2 ^ 28" using assms(4) cnt(2) by (simp add: bigram_index_def)
  have rw: "sint (wordCount bin) - 1 = int (length ws) - 1"
  proof -
    have "unat (wordCount bin) < 2 ^ 31" using cnt(1) by simp
    then show ?thesis using assms(2) by (simp only: sint_small word_index_def)
  qed
  have rb: "sint (bigramCount bin) - 1 = int (length (map fst bs)) - 1"
  proof -
    have "unat (bigramCount bin) < 2 ^ 31" using cnt(2) by simp
    then show ?thesis using assms(4) by (simp only: sint_small bigram_index_def length_map)
  qed
  note W = find_sorted[where keys = ws and key = w
      and compare = "\<lambda>mid. lemma_is_compare_word bin mid w (int (length w))"
      and c = "\<lambda>m. cmp_bytes (ws ! nat m) w",
      OF compare_word_stored[OF assms(2) _ _ lw] _ assms(3)[unfolded sorted_by_cmp_bytes] lw,
      simplified cmp_bytes_less cmp_bytes_eq, folded rw]
  have a: "w \<notin> set ws \<longrightarrow> lemma_is_find_word bin w = Inr (- 1)"
    unfolding lemma_is_find_word_def using W(1) by simp
  have b: "\<forall>i < length ws. ws ! i = w \<and> (\<forall>j < length ws. j \<noteq> i \<longrightarrow> ws ! j \<noteq> w)
          \<longrightarrow> lemma_is_find_word bin w = Inr (int i)"
    unfolding lemma_is_find_word_def using W(2) by simp
  have cb: "lemma_is_compare_bigram bin (word_of_int m) w1 (int (length w1)) w2 (int (length w2))
        = Inr (cmp_pair (map fst bs ! nat m) (w1, w2))"
    if "0 \<le> m" "m < int (length (map fst bs))" for m
    using compare_bigram_stored[OF assms(4) that(1) _ lb, of w1 w2] that by simp
  have lm: "length (map fst bs) < 2 ^ 28" using lb by simp
  note B = find_sorted[where keys = "map fst bs" and key = "(w1, w2)"
      and compare = "\<lambda>mid. lemma_is_compare_bigram bin mid w1 (int (length w1)) w2 (int (length w2))"
      and c = "\<lambda>m. cmp_pair (map fst bs ! nat m) (w1, w2)",
      OF cb _ assms(5)[unfolded sorted_by_cmp_pair] lm,
      simplified cmp_pair_less cmp_pair_eq, folded rb]
  have z: "lemma_is_find_bigram b w1 w2 = Inr (- 1) \<and> lemma_is_bigram_freq b w1 w2 = Inr 0"
    if "bigramCount b = 0" for b
    using that by (simp add: lemma_is_find_bigram_def lemma_is_bigram_freq_def)
  have fr: "lemma_is_find_bigram bin w1 w2 = Inr k \<Longrightarrow> 0 \<le> k \<Longrightarrow> k < int (length bs) \<Longrightarrow>
      lemma_is_bigram_freq bin w1 w2 = Inr (snd (bs ! nat k))" for k
  proof -
    assume k: "lemma_is_find_bigram bin w1 w2 = Inr k" "0 \<le> k" "k < int (length bs)"
    have nk: "nat k < length bs" using k(2,3) by linarith
    then have at: "bigram_at bin (nat k) = Some (bs ! nat k)"
      using assms(4) unfolding bigram_index_def by blast
    obtain p f0 where pf: "bs ! nat k = (p, f0)" by (metis surj_pair)
    from at[unfolded pf] obtain fr where "bigramFreqs bin = Some fr"
      "rd_u32 (data bin) (fr + 4 * nat k) = Some f0"
      by (auto simp: bigram_at_def split: option.splits)
    then have f: "bigramFreqs bin = Some fr"
      "rd_u32 (data bin) (fr + 4 * nat k) = Some (snd (bs ! nat k))"
      by (simp_all add: pf)
    have "unat (word_of_int k :: u32) = nat k"
      using k(2) nk lb by (intro unat_word_of_int_small) auto
    then show ?thesis
      using k(1,2) f by (simp add: lemma_is_bigram_freq_def non_null_def lemma_is_u32_def
          in_bounds_def)
  qed
  have c: "(w1, w2) \<notin> fst ` set bs \<longrightarrow>
          lemma_is_find_bigram bin w1 w2 = Inr (- 1) \<and> lemma_is_bigram_freq bin w1 w2 = Inr 0"
  proof
    assume n: "(w1, w2) \<notin> fst ` set bs"
    have "lemma_is_find_bigram bin w1 w2 = Inr (- 1)"
    proof (cases "bigramCount bin = 0")
      case True
      then show ?thesis using z by blast
    next
      case False
      then show ?thesis unfolding lemma_is_find_bigram_def using B(1) n by simp
    qed
    then show "lemma_is_find_bigram bin w1 w2 = Inr (- 1) \<and> lemma_is_bigram_freq bin w1 w2 = Inr 0"
      by (simp add: lemma_is_bigram_freq_def)
  qed
  have d: "\<forall>i < length bs. fst (bs ! i) = (w1, w2)
            \<and> (\<forall>j < length bs. j \<noteq> i \<longrightarrow> fst (bs ! j) \<noteq> (w1, w2))
          \<longrightarrow> lemma_is_find_bigram bin w1 w2 = Inr (int i)
              \<and> lemma_is_bigram_freq bin w1 w2 = Inr (snd (bs ! i))"
  proof (intro allI impI)
    fix i assume i: "i < length bs"
      and h: "fst (bs ! i) = (w1, w2) \<and> (\<forall>j < length bs. j \<noteq> i \<longrightarrow> fst (bs ! j) \<noteq> (w1, w2))"
    have ne: "bigramCount bin \<noteq> 0"
      using i assms(4) by (auto simp: bigram_index_def)
    have "find_loop (\<lambda>mid. lemma_is_compare_bigram bin mid w1 (int (length w1)) w2
        (int (length w2))) 0 (sint (bigramCount bin) - 1) = Inr (int i)"
      using B(2)[of i] i h by simp
    then have fi: "lemma_is_find_bigram bin w1 w2 = Inr (int i)"
      using ne by (simp add: lemma_is_find_bigram_def)
    from fr[OF fi] i show "lemma_is_find_bigram bin w1 w2 = Inr (int i)
              \<and> lemma_is_bigram_freq bin w1 w2 = Inr (snd (bs ! i))"
      using fi by simp
  qed
  have e: "\<exists>f. lemma_is_bigram_freq bin w1 w2 = Inr f"
  proof (cases "bigramCount bin = 0")
    case True
    then show ?thesis using z by blast
  next
    case False
    from B(3) obtain k where k: "lemma_is_find_bigram bin w1 w2 = Inr k"
      "k = - 1 \<or> 0 \<le> k \<and> k < int (length bs)"
      using False by (auto simp: lemma_is_find_bigram_def)
    from k(2) show ?thesis
    proof
      assume "k = - 1"
      then show ?thesis using k(1) by (simp add: lemma_is_bigram_freq_def)
    next
      assume "0 \<le> k \<and> k < int (length bs)"
      then show ?thesis using fr[OF k(1)] by blast
    qed
  qed
  show ?thesis using a b c d e z by blast
qed

subsection \<open>A small dictionary file\<close>

text \<open>
  A version 1 file of 128 bytes: the string pool \<open>faraferveravar\<close>; the lemmas
  \<open>fara\<close>, \<open>far\<close> and \<open>vera\<close>; the words \<open>er\<close> (no entry), \<open>fer\<close> (the verb
  \<open>fara\<close> and the noun \<open>far\<close>) and \<open>var\<close> (the verb \<open>vera\<close>); and the bigram
  (\<open>fara\<close>, \<open>vera\<close>) with frequency 5. The rows are the header, the string pool,
  the lemma table, the word table, the entry ranges, the entries and the bigram tables.
\<close>

definition example_file :: bytes where
  "example_file =
     [65, 77, 69, 76, 1, 0, 0, 0, 14, 0, 0, 0, 3, 0, 0, 0, 3, 0, 0, 0, 3, 0, 0, 0,
      1, 0, 0, 0, 0, 0, 0, 0] @
     [102, 97, 114, 97, 102, 101, 114, 118, 101, 114, 97, 118, 97, 114] @
     [0, 0, 0, 0, 0, 0, 0, 0, 7, 0, 0, 0] @
     [4, 3, 4, 0, 0, 0] @
     [8, 0, 0, 0, 4, 0, 0, 0, 11, 0, 0, 0] @
     [2, 3, 3, 0] @
     [0, 0, 0, 0, 0, 0, 0, 0, 2, 0, 0, 0, 3, 0, 0, 0] @
     [1, 0, 0, 0, 16, 0, 0, 0, 33, 0, 0, 0] @
     [0, 0, 0, 0] @
     [4, 0, 0, 0] @
     [7, 0, 0, 0] @
     [4, 0, 0, 0] @
     [5, 0, 0, 0]"

definition example_bin :: LemmaIsBinary where
  "example_bin =
     \<lparr>data = example_file, size' = 128, version = 1, stringPoolSize = 14, lemmaCount = 3,
      wordCount = 3, entryCount = 3, bigramCount = 1, stringPool = 32, lemmaOffsets = 46,
      lemmaLengths = 58, wordOffsets = 64, wordLengths = 76, entryOffsets = 80,
      entries = 96, bigramW1Offsets = Some 108, bigramW1Lengths = Some 112,
      bigramW2Offsets = Some 116, bigramW2Lengths = Some 120, bigramFreqs = Some 124\<rparr>"

definition example_words :: "bytes list" where
  "example_words = [bytes_of ''er'', bytes_of ''fer'', bytes_of ''var'']"

definition example_bigrams :: "((bytes \<times> bytes) \<times> u32) list" where
  "example_bigrams = [((bytes_of ''fara'', bytes_of ''vera''), 5)]"

lemma example_file_loads: "lemma_is_load_binary example_file = Loaded example_bin"
  by (simp add: lemma_is_load_binary_def hdr_def rd_u32_def le32_def MaxAllocSize_def
      load_tables_def load_bigrams_def Let_def align4_def example_file_def example_bin_def)

lemma example_word_index: "word_index example_bin example_words"
proof -
  have "word_at example_bin 0 = Some (bytes_of ''er'')"
    "word_at example_bin 1 = Some (bytes_of ''fer'')"
    "word_at example_bin 2 = Some (bytes_of ''var'')"
    by (simp_all add: word_at_def stored_string_def rd_u32_def rd_u8_def rd_mem_def le32_def
        example_bin_def example_file_def bytes_of_def)
  then have "\<forall>i < 3. word_at example_bin i = Some (example_words ! i)"
    by (simp add: example_words_def numeral_3_eq_3 less_Suc_eq numeral_2_eq_2)
  then show ?thesis
    by (simp add: word_index_def example_words_def example_bin_def)
qed

lemma example_bigram_index: "bigram_index example_bin example_bigrams"
proof -
  have "bigram_at example_bin 0 = Some ((bytes_of ''fara'', bytes_of ''vera''), 5)"
    by (simp add: bigram_at_def stored_string_def rd_u32_def rd_u8_def rd_mem_def le32_def
        example_bin_def example_file_def bytes_of_def)
  then show ?thesis
    by (simp add: bigram_index_def example_bigrams_def example_bin_def)
qed

lemma example_sorted:
  "sorted_wrt (\<lambda>a b. cmp_bytes a b \<le> 0) example_words"
  "sorted_wrt (\<lambda>a b. cmp_pair (fst a) (fst b) \<le> 0) example_bigrams"
  by (simp_all add: example_words_def example_bigrams_def bytes_of_def cmp_bytes_Cons)

theorem index_search_witness:
  "lemma_is_load_binary example_file = Loaded example_bin
   \<and> word_index example_bin example_words
   \<and> sorted_wrt (\<lambda>a b. cmp_bytes a b \<le> 0) example_words
   \<and> bigram_index example_bin example_bigrams
   \<and> sorted_wrt (\<lambda>a b. cmp_pair (fst a) (fst b) \<le> 0) example_bigrams
   \<and> lemma_is_find_word example_bin (bytes_of ''fer'') = Inr 1
   \<and> lemma_is_find_word example_bin (bytes_of ''zeta'') = Inr (- 1)
   \<and> lemma_is_find_bigram example_bin (bytes_of ''fara'') (bytes_of ''vera'') = Inr 0
   \<and> lemma_is_bigram_freq example_bin (bytes_of ''fara'') (bytes_of ''vera'') = Inr 5
   \<and> lemma_is_bigram_freq example_bin (bytes_of ''far'') (bytes_of ''vera'') = Inr 0"
proof -
  note T = index_search[OF example_file_loads example_word_index example_sorted(1)
      example_bigram_index example_sorted(2)]
  have a: "lemma_is_find_word example_bin (bytes_of ''fer'') = Inr 1"
    using T[of "bytes_of ''fer''" "[]" "[]"]
    by (simp add: example_words_def bytes_of_def numeral_3_eq_3 less_Suc_eq)
  have b: "lemma_is_find_word example_bin (bytes_of ''zeta'') = Inr (- 1)"
    using T[of "bytes_of ''zeta''" "[]" "[]"] by (simp add: example_words_def bytes_of_def)
  have c: "lemma_is_find_bigram example_bin (bytes_of ''fara'') (bytes_of ''vera'') = Inr 0
      \<and> lemma_is_bigram_freq example_bin (bytes_of ''fara'') (bytes_of ''vera'') = Inr 5"
    using T[of "[]" "bytes_of ''fara''" "bytes_of ''vera''"]
    by (simp add: example_bigrams_def)
  have d: "lemma_is_bigram_freq example_bin (bytes_of ''far'') (bytes_of ''vera'') = Inr 0"
    using T[of "[]" "bytes_of ''far''" "bytes_of ''vera''"]
    by (simp add: example_bigrams_def bytes_of_def)
  show ?thesis
    using example_file_loads example_word_index example_sorted example_bigram_index a b c d
    by blast
qed

section \<open>Candidate resolver\<close>

text \<open>
  The candidate that stands for a word the dictionary cannot resolve: the lower-cased
  word itself, the tag \<open>POS_NO\<close> and no morphology.
\<close>

definition fallback :: "bytes \<Rightarrow> LemmaCandidate" where
  "fallback lower =
     \<lparr>c_lemma = lower, c_pos = POS_NO, c_caseCode = 0, c_genderCode = 0, c_numberCode = 0\<rparr>"

text \<open>
  The loop \<open>for (i = (int) start; i < (int) end; i++)\<close> of \<open>lemma_is_get_candidates\<close>;
  \<open>candidates\<close> holds the \<open>count\<close> candidates collected so far.
\<close>

function cand_loop ::
  "LemmaIsBinary \<Rightarrow> int \<Rightarrow> int \<Rightarrow> LemmaCandidate list \<Rightarrow> LemmaCandidate list res" where
  "cand_loop bin i end_i candidates =
     (if i < end_i then
        seq (lemma_is_u32 bin (entries bin) (word_of_int i)) (\<lambda>packed.
          let entry = lemma_is_unpack_entry bin packed;
              pos = lemma_is_pos_from_code (posCode entry)
          in seq (lemma_is_get_lemma bin (lemmaIdx entry)) (\<lambda>lem.
               if list_ex (\<lambda>c. c_pos c = pos \<and> strcmp (c_lemma c) lem = 0) candidates
               then cand_loop bin (i + 1) end_i candidates
               else cand_loop bin (i + 1) end_i
                      (candidates @
                       [\<lparr>c_lemma = lem, c_pos = pos, c_caseCode = caseCode entry,
                         c_genderCode = genderCode entry,
                         c_numberCode = numberCode entry\<rparr>])))
      else Inr candidates)"
  by pat_completeness auto
termination
  by (relation "measure (\<lambda>(bin, i, end_i, candidates). nat (end_i - i))") auto

declare cand_loop.simps [simp del]

text \<open>
  \<open>sizeof(LemmaCandidate)\<close> is 16 on the 64-bit platforms: a pointer, an \<open>enum\<close>
  and three bytes. The result is the array with its count; the early return of
  \<open>NULL\<close> with count 0 is the empty list.
\<close>

definition lemma_is_get_candidates ::
  "externals \<Rightarrow> LemmaIsBinary \<Rightarrow> bytes \<Rightarrow> LemmaCandidate list res" where
  "lemma_is_get_candidates X bin word =
     (let lower = lowerstr X word in
      seq (lemma_is_find_word bin lower) (\<lambda>idx.
        if idx < 0 then Inr [fallback lower]
        else
          seq (lemma_is_u32 bin (entryOffsets bin) (word_of_int idx)) (\<lambda>start.
          seq (lemma_is_u32 bin (entryOffsets bin) (word_of_int idx + 1)) (\<lambda>end_i.
            if end_i < start then Inr []
            else
              palloc (16 * unat (end_i - start))
                (seq (cand_loop bin (sint start) (sint end_i) []) (\<lambda>candidates.
                   if length candidates = 0 then Inr [fallback lower]
                   else Inr candidates))))))"

text \<open>
  \<open>icelandic_lexize\<close> after the dictionary is loaded. The result is the array of
  lemmas, or \<open>None\<close> for SQL \<open>NULL\<close>.
\<close>

function lexize_loop :: "LemmaIsBinary \<Rightarrow> int \<Rightarrow> int \<Rightarrow> u32 list \<Rightarrow> u32 list res" where
  "lexize_loop bin i end_i lemmaIds =
     (if i < end_i then
        seq (lemma_is_u32 bin (entries bin) (word_of_int i)) (\<lambda>packed.
          let entry = lemma_is_unpack_entry bin packed
          in if list_ex (\<lambda>k. k = lemmaIdx entry) lemmaIds
             then lexize_loop bin (i + 1) end_i lemmaIds
             else lexize_loop bin (i + 1) end_i (lemmaIds @ [lemmaIdx entry]))
      else Inr lemmaIds)"
  by pat_completeness auto
termination
  by (relation "measure (\<lambda>(bin, i, end_i, lemmaIds). nat (end_i - i))") auto

declare lexize_loop.simps [simp del]

fun get_lemmas :: "LemmaIsBinary \<Rightarrow> u32 list \<Rightarrow> bytes list res" where
  "get_lemmas bin [] = Inr []"
| "get_lemmas bin (k # ks) =
     seq (lemma_is_get_lemma bin k) (\<lambda>lem.
     seq (get_lemmas bin ks) (\<lambda>elems. Inr (lem # elems)))"

definition icelandic_lexize :: "externals \<Rightarrow> LemmaIsBinary \<Rightarrow> bytes \<Rightarrow> bytes list option res"
  where
  "icelandic_lexize X bin input =
     (let txt = lowerstr X input in
      seq (lemma_is_find_word bin txt) (\<lambda>idx.
        if idx < 0 then Inr (Some [txt])
        else
          seq (lemma_is_u32 bin (entryOffsets bin) (word_of_int idx)) (\<lambda>start.
          seq (lemma_is_u32 bin (entryOffsets bin) (word_of_int idx + 1)) (\<lambda>end_i.
            if end_i < start then Inr None
            else
              palloc (4 * unat (end_i - start))
                (seq (lexize_loop bin (sint start) (sint end_i) []) (\<lambda>lemmaIds.
                   if length lemmaIds = 0 then Inr (Some [txt])
                   else
                     palloc (8 * length lemmaIds)
                       (seq (get_lemmas bin lemmaIds) (\<lambda>elems. Inr (Some elems)))))))))"

text \<open>
  The entry range of word \<open>i\<close>, and the condition that every value stored in the
  tables stays inside the table or pool it points into: the views of words, lemmas and
  bigram words inside the string pool, the entry ranges inside the entries, the lemma
  ids inside the lemma table.
\<close>

definition entry_range :: "LemmaIsBinary \<Rightarrow> nat \<Rightarrow> (u32 \<times> u32) option" where
  "entry_range bin i =
     (case (rd_u32 (data bin) (entryOffsets bin + 4 * i),
            rd_u32 (data bin) (entryOffsets bin + 4 * (i + 1))) of
        (Some s, Some e) \<Rightarrow> Some (s, e)
      | _ \<Rightarrow> None)"

definition view_in_pool :: "LemmaIsBinary \<Rightarrow> nat \<Rightarrow> nat \<Rightarrow> nat \<Rightarrow> bool" where
  "view_in_pool bin offsets lengths i \<longleftrightarrow>
     (case (rd_u32 (data bin) (offsets + 4 * i), rd_u8 (data bin) (lengths + i)) of
        (Some off, Some len) \<Rightarrow> unat off + unat len \<le> unat (stringPoolSize bin)
      | _ \<Rightarrow> False)"

definition stored_in_bounds :: "LemmaIsBinary \<Rightarrow> bool" where
  "stored_in_bounds bin \<longleftrightarrow>
     (\<forall>i < unat (wordCount bin). view_in_pool bin (wordOffsets bin) (wordLengths bin) i)
     \<and> (\<forall>i < unat (lemmaCount bin). view_in_pool bin (lemmaOffsets bin) (lemmaLengths bin) i)
     \<and> (\<forall>i < unat (wordCount bin).
           case entry_range bin i of
             Some (s, e) \<Rightarrow> unat e \<le> unat (entryCount bin)
           | None \<Rightarrow> False)
     \<and> (\<forall>j < unat (entryCount bin).
           case rd_u32 (data bin) (entries bin + 4 * j) of
             Some packed \<Rightarrow>
               unat (lemmaIdx (lemma_is_unpack_entry bin packed)) < unat (lemmaCount bin)
           | None \<Rightarrow> False)"

subsection \<open>Reads of a loaded dictionary that stay in bounds\<close>

lemma layout_chain:
  assumes "layout bin"
  shows "stringPool bin + unat (stringPoolSize bin) \<le> lemmaOffsets bin"
    and "lemmaOffsets bin + 4 * unat (lemmaCount bin) \<le> lemmaLengths bin"
    and "lemmaLengths bin + unat (lemmaCount bin) \<le> wordOffsets bin"
    and "wordOffsets bin + 4 * unat (wordCount bin) \<le> wordLengths bin"
    and "wordLengths bin + unat (wordCount bin) \<le> entryOffsets bin"
    and "entryOffsets bin + 4 * (unat (wordCount bin) + 1) \<le> entries bin"
    and "entries bin + 4 * unat (entryCount bin) \<le> length (data bin)"
proof -
  note L = layoutD[OF assms]
  show "stringPool bin + unat (stringPoolSize bin) \<le> lemmaOffsets bin"
    using L(4,5) by simp
  show "lemmaOffsets bin + 4 * unat (lemmaCount bin) \<le> lemmaLengths bin"
    using L(6) by simp
  show "lemmaLengths bin + unat (lemmaCount bin) \<le> wordOffsets bin"
    unfolding L(7) by (rule pad_le_align4)
  show "wordOffsets bin + 4 * unat (wordCount bin) \<le> wordLengths bin"
    using L(8) by simp
  show "wordLengths bin + unat (wordCount bin) \<le> entryOffsets bin"
    unfolding L(9) by (rule pad_le_align4)
  have "unat (wordCount bin) + 1 < 2 ^ 32" using layout_counts(1)[OF assms] by simp
  then have "unat (wordCount bin + 1) = unat (wordCount bin) + 1"
    by (simp add: unat_word_ariths)
  then show "entryOffsets bin + 4 * (unat (wordCount bin) + 1) \<le> entries bin"
    using L(10) by simp
  show "entries bin + 4 * unat (entryCount bin) \<le> length (data bin)"
    using L(11) by simp
qed

lemma entry_count_bound:
  assumes "layout bin"
  shows "unat (entryCount bin) < 2 ^ 28"
proof -
  have "4 * unat (entryCount bin) \<le> length (data bin)"
    using layout_chain(7)[OF assms] by linarith
  moreover have "length (data bin) \<le> 1073741823"
    using layoutD(2)[OF assms] by (simp add: MaxAllocSize_def)
  ultimately show ?thesis by simp
qed

lemma rd_u32_Some: "off + 4 \<le> length buf \<Longrightarrow> \<exists>v. rd_u32 buf off = Some v"
  by (simp add: rd_u32_def)

lemma entry_range_readable:
  assumes "layout bin" and "i < unat (wordCount bin)"
  obtains s e where "entry_range bin i = Some (s, e)"
    and "lemma_is_u32 bin (entryOffsets bin) (word_of_nat i) = Inr s"
    and "lemma_is_u32 bin (entryOffsets bin) (word_of_nat i + 1) = Inr e"
proof -
  note C = layout_chain[OF assms(1)]
  have wc: "unat (wordCount bin) < 2 ^ 28" by (rule layout_counts(1)[OF assms(1)])
  have i: "unat (word_of_nat i :: u32) = i" using assms(2) wc by (simp add: unat_of_nat)
  have "i + 1 < 2 ^ 32" using assms(2) wc by simp
  then have i1: "unat (word_of_nat i + 1 :: u32) = i + 1"
    using i by (simp add: unat_word_ariths)
  have "entryOffsets bin + 4 * i + 4 \<le> length (data bin)"
    "entryOffsets bin + 4 * (i + 1) + 4 \<le> length (data bin)"
    using C(6,7) assms(2) by simp_all
  then obtain s e where se: "rd_u32 (data bin) (entryOffsets bin + 4 * i) = Some s"
    "rd_u32 (data bin) (entryOffsets bin + 4 * (i + 1)) = Some e"
    using rd_u32_Some by blast
  show ?thesis
  proof (rule that[of s e])
    show "entry_range bin i = Some (s, e)" using se by (simp add: entry_range_def)
    show "lemma_is_u32 bin (entryOffsets bin) (word_of_nat i) = Inr s"
      using se(1) by (simp add: lemma_is_u32_def i in_bounds_def)
    show "lemma_is_u32 bin (entryOffsets bin) (word_of_nat i + 1) = Inr e"
      using se(2) by (simp only: lemma_is_u32_def i1 in_bounds_def option.case)
  qed
qed

lemma find_word_result:
  assumes "layout bin" and "word_index bin ws"
  shows "\<exists>k. lemma_is_find_word bin w = Inr k
            \<and> (k = - 1 \<or> 0 \<le> k \<and> k < int (length ws) \<and> ws ! nat k = w)"
proof -
  note cnt = layout_counts[OF assms(1)]
  have lw: "length ws < 2 ^ 28" using assms(2) cnt(1) by (simp add: word_index_def)
  have rw: "sint (wordCount bin) - 1 = int (length ws) - 1"
  proof -
    have "unat (wordCount bin) < 2 ^ 31" using cnt(1) by simp
    then show ?thesis using assms(2) by (simp only: sint_small word_index_def)
  qed
  have "\<exists>k. find_loop (\<lambda>mid. lemma_is_compare_word bin mid w (int (length w))) 0
          (int (length ws) - 1) = Inr k
        \<and> (k = - 1 \<or> 0 \<le> k \<and> k \<le> int (length ws) - 1 \<and> cmp_bytes (ws ! nat k) w = 0)"
    by (rule find_loop_result[where n = "int (length ws)"])
      (use compare_word_stored[OF assms(2) _ _ lw] lw in auto)
  then show ?thesis
    unfolding lemma_is_find_word_def rw cmp_bytes_eq by force
qed

lemma get_lemma_in_bounds:
  assumes "layout bin" and "view_in_pool bin (lemmaOffsets bin) (lemmaLengths bin) (unat idx)"
  shows "\<exists>l. lemma_is_get_lemma bin idx = Inr l"
proof -
  from assms(2) obtain off len where
    o: "rd_u32 (data bin) (lemmaOffsets bin + 4 * unat idx) = Some off" and
    l: "rd_u8 (data bin) (lemmaLengths bin + unat idx) = Some len" and
    v: "unat off + unat len \<le> unat (stringPoolSize bin)"
    by (auto simp: view_in_pool_def split: option.splits)
  note C = layout_chain[OF assms(1)]
  have "stringPool bin + unat off + unat len \<le> length (data bin)"
    using C v by linarith
  then have "length (take (unat len) (drop (stringPool bin + unat off) (data bin))) = unat len"
    by simp
  then have "\<exists>l. pnstrdup (data bin) (stringPool bin + unat off) (unat len) = Inr l"
    by (simp add: pnstrdup_def Let_def)
  then show ?thesis
    by (simp add: lemma_is_get_lemma_def lemma_is_u32_def byte_at_def in_bounds_def o l)
qed

lemma entry_readable:
  assumes "layout bin" and "0 \<le> i" and "i < uint (entryCount bin)"
  shows "lemma_is_u32 bin (entries bin) (word_of_int i)
         = in_bounds (rd_u32 (data bin) (entries bin + 4 * nat i))"
    and "\<exists>p. rd_u32 (data bin) (entries bin + 4 * nat i) = Some p"
    and "nat i < unat (entryCount bin)"
proof -
  have "nat i < nat (uint (entryCount bin))" using assms(2,3) by linarith
  then show n: "nat i < unat (entryCount bin)" by simp
  have "nat i < 2 ^ 32" using n entry_count_bound[OF assms(1)] by simp
  then have "i < 2 ^ 32" using assms(2) by simp
  then have "unat (word_of_int i :: u32) = nat i"
    using assms(2) by (intro unat_word_of_int_small)
  then show "lemma_is_u32 bin (entries bin) (word_of_int i)
         = in_bounds (rd_u32 (data bin) (entries bin + 4 * nat i))"
    by (simp add: lemma_is_u32_def)
  have "entries bin + 4 * nat i + 4 \<le> length (data bin)"
    using layout_chain(7)[OF assms(1)] n by simp
  then show "\<exists>p. rd_u32 (data bin) (entries bin + 4 * nat i) = Some p"
    by (rule rd_u32_Some)
qed

lemma stored_lemma_id:
  assumes "stored_in_bounds bin" and "j < unat (entryCount bin)"
    and "rd_u32 (data bin) (entries bin + 4 * j) = Some packed"
  shows "view_in_pool bin (lemmaOffsets bin) (lemmaLengths bin)
           (unat (lemmaIdx (lemma_is_unpack_entry bin packed)))"
proof -
  have "unat (lemmaIdx (lemma_is_unpack_entry bin packed)) < unat (lemmaCount bin)"
    using assms unfolding stored_in_bounds_def by (auto split: option.splits)
  then show ?thesis using assms(1) unfolding stored_in_bounds_def by blast
qed

lemma entry_step:
  assumes "layout bin" and "stored_in_bounds bin" and "0 \<le> i" and "i < uint (entryCount bin)"
  obtains packed lem where
    "lemma_is_u32 bin (entries bin) (word_of_int i) = Inr packed"
    "lemma_is_get_lemma bin (lemmaIdx (lemma_is_unpack_entry bin packed)) = Inr lem"
    "unat (lemmaIdx (lemma_is_unpack_entry bin packed)) < unat (lemmaCount bin)"
proof -
  note R = entry_readable[OF assms(1,3,4)]
  from R(2) obtain packed where p: "rd_u32 (data bin) (entries bin + 4 * nat i) = Some packed"
    by blast
  have rp: "lemma_is_u32 bin (entries bin) (word_of_int i) = Inr packed"
    using R(1) p by (simp add: in_bounds_def)
  have lt: "unat (lemmaIdx (lemma_is_unpack_entry bin packed)) < unat (lemmaCount bin)"
    using assms(2) R(3) p unfolding stored_in_bounds_def by (auto split: option.splits)
  obtain lem where gl:
    "lemma_is_get_lemma bin (lemmaIdx (lemma_is_unpack_entry bin packed)) = Inr lem"
    using get_lemma_in_bounds[OF assms(1) stored_lemma_id[OF assms(2) R(3) p]] by blast
  show ?thesis by (rule that[OF rp gl lt])
qed

lemma cand_loop_in_bounds:
  assumes "layout bin" and "stored_in_bounds bin"
    and "0 \<le> i" and "end_i \<le> uint (entryCount bin)"
  shows "\<exists>cs'. cand_loop bin i end_i cs = Inr cs'"
  using assms(3)
proof (induction "nat (end_i - i)" arbitrary: i cs)
  case 0
  then have "\<not> i < end_i" by simp
  then show ?case by (subst cand_loop.simps) simp
next
  case (Suc n)
  then have lt: "i < end_i" by linarith
  then have ie: "i < uint (entryCount bin)" using assms(4) by linarith
  obtain packed lem where
    rp: "lemma_is_u32 bin (entries bin) (word_of_int i) = Inr packed" and
    gl: "lemma_is_get_lemma bin (lemmaIdx (lemma_is_unpack_entry bin packed)) = Inr lem"
    using entry_step[OF assms(1,2) Suc.prems ie] by blast
  have n: "n = nat (end_i - (i + 1))" using Suc.hyps(2) by linarith
  have nx: "\<exists>cs'. cand_loop bin (i + 1) end_i cs = Inr cs'" for cs
    using Suc.hyps(1)[OF n, of cs] Suc.prems by simp
  show ?case
    using lt nx by (subst cand_loop.simps) (simp add: rp gl Let_def)
qed

lemma lexize_loop_in_bounds:
  assumes "layout bin" and "stored_in_bounds bin"
    and "0 \<le> i" and "end_i \<le> uint (entryCount bin)"
    and "\<forall>k \<in> set ids. unat k < unat (lemmaCount bin)"
  shows "\<exists>ids'. lexize_loop bin i end_i ids = Inr ids'
           \<and> (\<forall>k \<in> set ids'. unat k < unat (lemmaCount bin))
           \<and> length ids' \<le> length ids + nat (end_i - i)"
  using assms(3,5)
proof (induction "nat (end_i - i)" arbitrary: i ids)
  case 0
  then have "\<not> i < end_i" by simp
  then show ?case using "0.prems" by (subst lexize_loop.simps) simp
next
  case (Suc n)
  then have lt: "i < end_i" by linarith
  then have ie: "i < uint (entryCount bin)" using assms(4) by linarith
  obtain packed where
    rp: "lemma_is_u32 bin (entries bin) (word_of_int i) = Inr packed" and
    li: "unat (lemmaIdx (lemma_is_unpack_entry bin packed)) < unat (lemmaCount bin)"
    using entry_step[OF assms(1,2) Suc.prems(1) ie] by blast
  have n: "n = nat (end_i - (i + 1))" using Suc.hyps(2) by linarith
  define k where "k = lemmaIdx (lemma_is_unpack_entry bin packed)"
  show ?case
  proof (cases "list_ex (\<lambda>x. x = k) ids")
    case True
    obtain ids' where r: "lexize_loop bin (i + 1) end_i ids = Inr ids'"
      "\<forall>k \<in> set ids'. unat k < unat (lemmaCount bin)"
      "length ids' \<le> length ids + nat (end_i - (i + 1))"
      using Suc.hyps(1)[OF n, of ids] Suc.prems by auto
    have "lexize_loop bin i end_i ids = Inr ids'"
      using lt True r(1) by (subst lexize_loop.simps) (simp add: rp Let_def k_def)
    then show ?thesis using r(2,3) by auto
  next
    case False
    have "\<forall>x \<in> set (ids @ [k]). unat x < unat (lemmaCount bin)"
      using Suc.prems(2) li by (auto simp: k_def)
    then obtain ids' where r: "lexize_loop bin (i + 1) end_i (ids @ [k]) = Inr ids'"
      "\<forall>k \<in> set ids'. unat k < unat (lemmaCount bin)"
      "length ids' \<le> length (ids @ [k]) + nat (end_i - (i + 1))"
      using Suc.hyps(1)[OF n, of "ids @ [k]"] Suc.prems(1) by auto
    have "lexize_loop bin i end_i ids = Inr ids'"
      using lt False r(1) by (subst lexize_loop.simps) (simp add: rp Let_def k_def)
    then show ?thesis using r(2,3) lt by auto
  qed
qed

lemma get_lemmas_in_bounds:
  assumes "layout bin" and "stored_in_bounds bin"
    and "\<forall>k \<in> set ks. unat k < unat (lemmaCount bin)"
  shows "\<exists>ls. get_lemmas bin ks = Inr ls \<and> length ls = length ks"
  using assms(3)
proof (induction ks)
  case Nil
  then show ?case by simp
next
  case (Cons k ks)
  have "view_in_pool bin (lemmaOffsets bin) (lemmaLengths bin) (unat k)"
    using assms(2) Cons.prems unfolding stored_in_bounds_def by simp
  then obtain l where "lemma_is_get_lemma bin k = Inr l"
    using get_lemma_in_bounds[OF assms(1)] by blast
  moreover obtain ls where "get_lemmas bin ks = Inr ls" "length ls = length ks"
    using Cons by auto
  ultimately show ?case by simp
qed

subsection \<open>The fallback candidate\<close>

lemma resolve_cases:
  assumes "layout bin" and "word_index bin ws"
  obtains (not_found) "lemma_is_find_word bin w = Inr (- 1)"
  | (found) k s e where "lemma_is_find_word bin w = Inr (int k)" "k < length ws" "ws ! k = w"
      "entry_range bin k = Some (s, e)"
      "lemma_is_u32 bin (entryOffsets bin) (word_of_int (int k)) = Inr s"
      "lemma_is_u32 bin (entryOffsets bin) (word_of_int (int k) + 1) = Inr e"
proof -
  from find_word_result[OF assms, of w] obtain idx where
    f: "lemma_is_find_word bin w = Inr idx" and
    r: "idx = - 1 \<or> 0 \<le> idx \<and> idx < int (length ws) \<and> ws ! nat idx = w"
    by blast
  from r show ?thesis
  proof
    assume "idx = - 1"
    then show ?thesis using f not_found by simp
  next
    assume a: "0 \<le> idx \<and> idx < int (length ws) \<and> ws ! nat idx = w"
    then have k: "nat idx < length ws" "int (nat idx) = idx" by auto
    have "nat idx < unat (wordCount bin)" using k(1) assms(2) by (simp add: word_index_def)
    from entry_range_readable[OF assms(1) this] obtain s e where
      "entry_range bin (nat idx) = Some (s, e)"
      "lemma_is_u32 bin (entryOffsets bin) (word_of_nat (nat idx)) = Inr s"
      "lemma_is_u32 bin (entryOffsets bin) (word_of_nat (nat idx) + 1) = Inr e"
      by blast
    then show ?thesis
      using found[of "nat idx" s e] f a k by simp
  qed
qed

lemma cand_loop_empty: "cand_loop bin i i cs = Inr cs"
  by (subst cand_loop.simps) simp

lemma lexize_loop_empty: "lexize_loop bin i i ids = Inr ids"
  by (subst lexize_loop.simps) simp

lemma palloc_zero: "palloc 0 k = k"
  by (simp add: palloc_def)

lemma palloc_cases: "palloc n k = Inl AllocTooLarge \<or> palloc n k = k"
  by (simp add: palloc_def)

lemma candidates_never_empty:
  "palloc n (seq m (\<lambda>cs. if length cs = 0 then Inr [c] else Inr cs)) \<noteq> Inr []"
  by (cases m) (auto simp: palloc_def)

lemma lexize_never_empty:
  "palloc n (seq m (\<lambda>ids. if length ids = 0 then Inr (Some [t])
       else palloc (8 * length ids) (seq (get_lemmas bin ids) (\<lambda>elems. Inr (Some elems)))))
     \<noteq> Inr None"
  by (cases m; cases "get_lemmas bin (projr m)") (auto simp: palloc_def)

lemma get_lemmas_length: "get_lemmas bin ks = Inr ls \<Longrightarrow> length ls = length ks"
proof (induction ks arbitrary: ls)
  case Nil
  then show ?case by simp
next
  case (Cons k ks)
  then show ?case
    by (cases "lemma_is_get_lemma bin k"; cases "get_lemmas bin ks") auto
qed

lemma lexize_never_empty_list:
  "palloc n (seq m (\<lambda>ids. if length ids = 0 then Inr (Some [t])
       else palloc (8 * length ids) (seq (get_lemmas bin ids) (\<lambda>elems. Inr (Some elems)))))
     \<noteq> Inr (Some [])"
proof (cases m)
  case (Inl f)
  then show ?thesis by (simp add: palloc_def)
next
  case (Inr ids)
  show ?thesis
  proof (cases "get_lemmas bin ids")
    case (Inl f)
    then show ?thesis using Inr by (simp add: palloc_def)
  next
    case gl: (Inr ls)
    from get_lemmas_length[OF gl] show ?thesis
      using Inr gl by (auto simp: palloc_def)
  qed
qed

text \<open>
  The two loops compare \<open>(int) start\<close> and \<open>(int) end\<close>. They add nothing when the
  first is not below the second; otherwise the first entry read is a candidate, as
  nothing was seen before it.
\<close>

lemma cand_loop_done: "\<not> i < end_i \<Longrightarrow> cand_loop bin i end_i cs = Inr cs"
  by (subst cand_loop.simps) simp

lemma lexize_loop_done: "\<not> i < end_i \<Longrightarrow> lexize_loop bin i end_i ids = Inr ids"
  by (subst lexize_loop.simps) simp

lemma cand_loop_grows: "cand_loop bin i end_i cs = Inr r \<Longrightarrow> length cs \<le> length r"
proof (induction "nat (end_i - i)" arbitrary: i cs r rule: less_induct)
  case less
  show ?case
  proof (cases "i < end_i")
    case False
    with less.prems show ?thesis by (simp add: cand_loop_done)
  next
    case True
    then have m: "nat (end_i - (i + 1)) < nat (end_i - i)" by linarith
    from less.prems True obtain packed where
      p: "lemma_is_u32 bin (entries bin) (word_of_int i) = Inr packed"
      by (subst (asm) cand_loop.simps) (cases "lemma_is_u32 bin (entries bin) (word_of_int i)"; simp)
    from less.prems True p obtain lem where
      l: "lemma_is_get_lemma bin (lemmaIdx (lemma_is_unpack_entry bin packed)) = Inr lem"
      by (subst (asm) cand_loop.simps)
        (cases "lemma_is_get_lemma bin (lemmaIdx (lemma_is_unpack_entry bin packed))";
          simp add: Let_def)
    from less.prems True p l
    have "cand_loop bin (i + 1) end_i cs = Inr r
      \<or> (\<exists>c. cand_loop bin (i + 1) end_i (cs @ [c]) = Inr r)"
      by (subst (asm) cand_loop.simps) (auto simp: Let_def split: if_splits)
    then show ?thesis
    proof
      assume "cand_loop bin (i + 1) end_i cs = Inr r"
      then show ?thesis by (rule less.hyps[OF m])
    next
      assume "\<exists>c. cand_loop bin (i + 1) end_i (cs @ [c]) = Inr r"
      then obtain c where "cand_loop bin (i + 1) end_i (cs @ [c]) = Inr r" ..
      then have "length (cs @ [c]) \<le> length r" by (rule less.hyps[OF m])
      then show ?thesis by simp
    qed
  qed
qed

lemma lexize_loop_grows: "lexize_loop bin i end_i ids = Inr r \<Longrightarrow> length ids \<le> length r"
proof (induction "nat (end_i - i)" arbitrary: i ids r rule: less_induct)
  case less
  show ?case
  proof (cases "i < end_i")
    case False
    with less.prems show ?thesis by (simp add: lexize_loop_done)
  next
    case True
    then have m: "nat (end_i - (i + 1)) < nat (end_i - i)" by linarith
    from less.prems True obtain packed where
      p: "lemma_is_u32 bin (entries bin) (word_of_int i) = Inr packed"
      by (subst (asm) lexize_loop.simps)
        (cases "lemma_is_u32 bin (entries bin) (word_of_int i)"; simp)
    from less.prems True p
    have "lexize_loop bin (i + 1) end_i ids = Inr r
      \<or> (\<exists>k. lexize_loop bin (i + 1) end_i (ids @ [k]) = Inr r)"
      by (subst (asm) lexize_loop.simps) (auto simp: Let_def split: if_splits)
    then show ?thesis
    proof
      assume "lexize_loop bin (i + 1) end_i ids = Inr r"
      then show ?thesis by (rule less.hyps[OF m])
    next
      assume "\<exists>k. lexize_loop bin (i + 1) end_i (ids @ [k]) = Inr r"
      then obtain k where "lexize_loop bin (i + 1) end_i (ids @ [k]) = Inr r" ..
      then have "length (ids @ [k]) \<le> length r" by (rule less.hyps[OF m])
      then show ?thesis by simp
    qed
  qed
qed

lemma cand_loop_none: "cand_loop bin i end_i [] = Inr [] \<longleftrightarrow> \<not> i < end_i"
proof
  assume a: "cand_loop bin i end_i [] = Inr []"
  show "\<not> i < end_i"
  proof
    assume lt: "i < end_i"
    from a lt obtain packed where
      p: "lemma_is_u32 bin (entries bin) (word_of_int i) = Inr packed"
      by (subst (asm) cand_loop.simps) (cases "lemma_is_u32 bin (entries bin) (word_of_int i)"; simp)
    from a lt p obtain lem where
      l: "lemma_is_get_lemma bin (lemmaIdx (lemma_is_unpack_entry bin packed)) = Inr lem"
      by (subst (asm) cand_loop.simps)
        (cases "lemma_is_get_lemma bin (lemmaIdx (lemma_is_unpack_entry bin packed))";
          simp add: Let_def)
    from a lt p l obtain c where "cand_loop bin (i + 1) end_i ([] @ [c]) = Inr []"
      by (subst (asm) cand_loop.simps) (auto simp: Let_def)
    from cand_loop_grows[OF this] show False by simp
  qed
next
  assume "\<not> i < end_i"
  then show "cand_loop bin i end_i [] = Inr []" by (rule cand_loop_done)
qed

lemma lexize_loop_none: "lexize_loop bin i end_i [] = Inr [] \<longleftrightarrow> \<not> i < end_i"
proof
  assume a: "lexize_loop bin i end_i [] = Inr []"
  show "\<not> i < end_i"
  proof
    assume lt: "i < end_i"
    from a lt obtain packed where
      p: "lemma_is_u32 bin (entries bin) (word_of_int i) = Inr packed"
      by (subst (asm) lexize_loop.simps)
        (cases "lemma_is_u32 bin (entries bin) (word_of_int i)"; simp)
    from a lt p obtain k where "lexize_loop bin (i + 1) end_i ([] @ [k]) = Inr []"
      by (subst (asm) lexize_loop.simps) (auto simp: Let_def)
    from lexize_loop_grows[OF this] show False by simp
  qed
next
  assume "\<not> i < end_i"
  then show "lexize_loop bin i end_i [] = Inr []" by (rule lexize_loop_done)
qed

lemma word_index_exists:
  assumes "layout bin" and "stored_in_bounds bin"
  shows "\<exists>ws. word_index bin ws"
proof -
  note C = layout_chain[OF assms(1)]
  have rd: "\<exists>s. word_at bin i = Some s" if "i < unat (wordCount bin)" for i
  proof -
    have "view_in_pool bin (wordOffsets bin) (wordLengths bin) i"
      using assms(2) that unfolding stored_in_bounds_def by blast
    then obtain off len where
      o: "rd_u32 (data bin) (wordOffsets bin + 4 * i) = Some off" and
      l: "rd_u8 (data bin) (wordLengths bin + i) = Some len" and
      v: "unat off + unat len \<le> unat (stringPoolSize bin)"
      by (auto simp: view_in_pool_def split: option.splits)
    have "stringPool bin + unat off + unat len \<le> length (data bin)"
      using C v by linarith
    then show ?thesis
      by (simp add: word_at_def stored_string_def o l rd_mem_def)
  qed
  define ws where "ws = map (\<lambda>i. the (word_at bin i)) [0..<unat (wordCount bin)]"
  have "word_index bin ws"
    unfolding word_index_def ws_def using rd by auto
  then show ?thesis ..
qed

lemma range_values:
  assumes "layout bin" and "stored_in_bounds bin" and "k < unat (wordCount bin)"
    and "entry_range bin k = Some (s, e)" and "\<not> e < s"
  shows "sint s = uint s" and "sint e = uint e" and "0 \<le> uint s" and "uint e \<le> uint (entryCount bin)"
    and "unat (e - s) \<le> unat (entryCount bin)" and "nat (uint e - uint s) \<le> unat (entryCount bin)"
proof -
  have ec: "unat (entryCount bin) < 2 ^ 28" by (rule entry_count_bound[OF assms(1)])
  have e: "unat e \<le> unat (entryCount bin)"
    using assms(2,3,4) unfolding stored_in_bounds_def by (auto split: option.splits)
  have se: "unat s \<le> unat e" using assms(5) by (simp add: word_less_nat_alt)
  have lt: "unat s < 2 ^ 31" "unat e < 2 ^ 31" using e se ec by simp_all
  show "sint s = uint s" using sint_small[OF lt(1)] by (simp only: uint_nat)
  show "sint e = uint e" using sint_small[OF lt(2)] by (simp only: uint_nat)
  show "0 \<le> uint s" by simp
  show "uint e \<le> uint (entryCount bin)" unfolding uint_nat using e by (simp only: of_nat_le_iff)
  have "unat (e - s) = unat e - unat s" using se by (simp add: unat_sub word_le_nat_alt)
  then show "unat (e - s) \<le> unat (entryCount bin)" using e by simp
  have "nat (uint e - uint s) = unat e - unat s"
    unfolding uint_nat by (simp only: nat_minus_as_int)
  then show "nat (uint e - uint s) \<le> unat (entryCount bin)" using e by simp
qed

lemma resolve_in_bounds:
  assumes "layout bin" and "stored_in_bounds bin"
  shows "(\<exists>cs. lemma_is_get_candidates X bin word = Inr cs)
           \<or> lemma_is_get_candidates X bin word = Inl AllocTooLarge"
    and "(\<exists>r. icelandic_lexize X bin word = Inr r)
           \<or> icelandic_lexize X bin word = Inl AllocTooLarge"
    and "16 * unat (entryCount bin) \<le> MaxAllocSize \<Longrightarrow>
           (\<exists>cs. lemma_is_get_candidates X bin word = Inr cs)
           \<and> (\<exists>r. icelandic_lexize X bin word = Inr r)"
proof -
  obtain ws where wi: "word_index bin ws" using word_index_exists[OF assms] by blast
  let ?w = "lowerstr X word"
  have "((\<exists>cs. lemma_is_get_candidates X bin word = Inr cs)
           \<or> lemma_is_get_candidates X bin word = Inl AllocTooLarge)
      \<and> ((\<exists>r. icelandic_lexize X bin word = Inr r)
           \<or> icelandic_lexize X bin word = Inl AllocTooLarge)
      \<and> (16 * unat (entryCount bin) \<le> MaxAllocSize \<longrightarrow>
           (\<exists>cs. lemma_is_get_candidates X bin word = Inr cs)
           \<and> (\<exists>r. icelandic_lexize X bin word = Inr r))"
  proof (rule resolve_cases[OF assms(1) wi, of ?w])
    assume "lemma_is_find_word bin ?w = Inr (- 1)"
    then show ?thesis
      by (simp add: lemma_is_get_candidates_def icelandic_lexize_def Let_def)
  next
    fix k s e
    assume found: "lemma_is_find_word bin ?w = Inr (int k)" "k < length ws" "ws ! k = ?w"
      "entry_range bin k = Some (s, e)"
      "lemma_is_u32 bin (entryOffsets bin) (word_of_int (int k)) = Inr s"
      "lemma_is_u32 bin (entryOffsets bin) (word_of_int (int k) + 1) = Inr e"
    show ?thesis
    proof (cases "e < s")
      case True
      then show ?thesis
        using found by (simp add: lemma_is_get_candidates_def icelandic_lexize_def Let_def)
    next
      case False
      have kw: "k < unat (wordCount bin)" using found(2) wi by (simp add: word_index_def)
      note V = range_values[OF assms kw found(4) False]
      obtain cs where cl: "cand_loop bin (sint s) (sint e) [] = Inr cs"
        using cand_loop_in_bounds[OF assms, of "sint s" "sint e" "[]"] V by auto
      obtain ids where ll: "lexize_loop bin (sint s) (sint e) [] = Inr ids"
        "\<forall>k \<in> set ids. unat k < unat (lemmaCount bin)"
        "length ids \<le> nat (sint e - sint s)"
        using lexize_loop_in_bounds[OF assms, of "sint s" "sint e" "[]"] V by auto
      obtain ls where gl: "get_lemmas bin ids = Inr ls"
        using get_lemmas_in_bounds[OF assms ll(2)] by blast
      have G: "lemma_is_get_candidates X bin word =
          palloc (16 * unat (e - s)) (if length cs = 0 then Inr [fallback ?w] else Inr cs)"
        using found False by (simp add: lemma_is_get_candidates_def Let_def cl)
      have Lx: "icelandic_lexize X bin word =
          palloc (4 * unat (e - s)) (if length ids = 0 then Inr (Some [?w])
             else palloc (8 * length ids) (Inr (Some ls)))"
        using found False by (simp add: icelandic_lexize_def Let_def ll(1) gl)
      have li: "length ids \<le> unat (entryCount bin)" using ll(3) V by simp
      have a: "(\<exists>cs. lemma_is_get_candidates X bin word = Inr cs)
           \<or> lemma_is_get_candidates X bin word = Inl AllocTooLarge"
        unfolding G by (auto simp: palloc_def)
      have b: "(\<exists>r. icelandic_lexize X bin word = Inr r)
           \<or> icelandic_lexize X bin word = Inl AllocTooLarge"
        unfolding Lx by (auto simp: palloc_def)
      have c: "(\<exists>cs. lemma_is_get_candidates X bin word = Inr cs)
           \<and> (\<exists>r. icelandic_lexize X bin word = Inr r)"
        if "16 * unat (entryCount bin) \<le> MaxAllocSize"
      proof -
        have "16 * unat (e - s) \<le> MaxAllocSize" "4 * unat (e - s) \<le> MaxAllocSize"
          "8 * length ids \<le> MaxAllocSize"
          using that V(5) li by linarith+
        then show ?thesis unfolding G Lx by (auto simp: palloc_def)
      qed
      show ?thesis using a b c by blast
    qed
  qed
  then show "(\<exists>cs. lemma_is_get_candidates X bin word = Inr cs)
           \<or> lemma_is_get_candidates X bin word = Inl AllocTooLarge"
    and "(\<exists>r. icelandic_lexize X bin word = Inr r)
           \<or> icelandic_lexize X bin word = Inl AllocTooLarge"
    and "16 * unat (entryCount bin) \<le> MaxAllocSize \<Longrightarrow>
           (\<exists>cs. lemma_is_get_candidates X bin word = Inr cs)
           \<and> (\<exists>r. icelandic_lexize X bin word = Inr r)"
    by blast+
qed

lemma resolve_found:
  assumes "lemma_is_find_word bin (lowerstr X word) = Inr (int k)"
    and "lemma_is_u32 bin (entryOffsets bin) (word_of_int (int k)) = Inr s"
    and "lemma_is_u32 bin (entryOffsets bin) (word_of_int (int k) + 1) = Inr e"
  shows "s = e \<Longrightarrow> lemma_is_get_candidates X bin word = Inr [fallback (lowerstr X word)]
                  \<and> icelandic_lexize X bin word = Inr (Some [lowerstr X word])"
    and "e < s \<Longrightarrow> lemma_is_get_candidates X bin word = Inr []
                  \<and> icelandic_lexize X bin word = Inr None"
    and "s \<le> e \<Longrightarrow> lemma_is_get_candidates X bin word \<noteq> Inr []
                  \<and> icelandic_lexize X bin word \<noteq> Inr None
                  \<and> icelandic_lexize X bin word \<noteq> Inr (Some [])"
    and "s \<le> e \<and> 16 * unat (e - s) \<le> MaxAllocSize
           \<and> cand_loop bin (sint s) (sint e) [] = Inr []
         \<Longrightarrow> lemma_is_get_candidates X bin word = Inr [fallback (lowerstr X word)]"
    and "s \<le> e \<and> 4 * unat (e - s) \<le> MaxAllocSize
           \<and> lexize_loop bin (sint s) (sint e) [] = Inr []
         \<Longrightarrow> icelandic_lexize X bin word = Inr (Some [lowerstr X word])"
proof -
  show "s = e \<Longrightarrow> lemma_is_get_candidates X bin word = Inr [fallback (lowerstr X word)]
                  \<and> icelandic_lexize X bin word = Inr (Some [lowerstr X word])"
    using assms
    by (simp add: lemma_is_get_candidates_def icelandic_lexize_def Let_def palloc_zero
        cand_loop_empty lexize_loop_empty)
  show "e < s \<Longrightarrow> lemma_is_get_candidates X bin word = Inr []
                  \<and> icelandic_lexize X bin word = Inr None"
    using assms by (simp add: lemma_is_get_candidates_def icelandic_lexize_def Let_def)
  have G: "lemma_is_get_candidates X bin word =
      palloc (16 * unat (e - s)) (seq (cand_loop bin (sint s) (sint e) [])
        (\<lambda>cs. if length cs = 0 then Inr [fallback (lowerstr X word)] else Inr cs))"
    if "s \<le> e"
  proof -
    from that have "\<not> e < s" by simp
    with assms show ?thesis by (simp add: lemma_is_get_candidates_def Let_def)
  qed
  have Lx: "icelandic_lexize X bin word =
      palloc (4 * unat (e - s)) (seq (lexize_loop bin (sint s) (sint e) [])
        (\<lambda>ids. if length ids = 0 then Inr (Some [lowerstr X word])
           else palloc (8 * length ids) (seq (get_lemmas bin ids) (\<lambda>elems. Inr (Some elems)))))"
    if "s \<le> e"
  proof -
    from that have "\<not> e < s" by simp
    with assms show ?thesis by (simp add: icelandic_lexize_def Let_def)
  qed
  show "lemma_is_get_candidates X bin word \<noteq> Inr []
                  \<and> icelandic_lexize X bin word \<noteq> Inr None
                  \<and> icelandic_lexize X bin word \<noteq> Inr (Some [])" if "s \<le> e"
    unfolding G[OF that] Lx[OF that]
    by (intro conjI candidates_never_empty lexize_never_empty lexize_never_empty_list)
  show "lemma_is_get_candidates X bin word = Inr [fallback (lowerstr X word)]"
    if "s \<le> e \<and> 16 * unat (e - s) \<le> MaxAllocSize
           \<and> cand_loop bin (sint s) (sint e) [] = Inr []"
    using that G by (simp add: palloc_def)
  show "icelandic_lexize X bin word = Inr (Some [lowerstr X word])"
    if "s \<le> e \<and> 4 * unat (e - s) \<le> MaxAllocSize
           \<and> lexize_loop bin (sint s) (sint e) [] = Inr []"
    using that Lx by (simp add: palloc_def)
qed

lemma entry_range_reads:
  assumes "layout bin" and "k < unat (wordCount bin)" and "entry_range bin k = Some (s, e)"
  shows "lemma_is_u32 bin (entryOffsets bin) (word_of_int (int k)) = Inr s"
    and "lemma_is_u32 bin (entryOffsets bin) (word_of_int (int k) + 1) = Inr e"
proof -
  from entry_range_readable[OF assms(1,2)] obtain s' e' where
    r: "entry_range bin k = Some (s', e')"
    "lemma_is_u32 bin (entryOffsets bin) (word_of_nat k) = Inr s'"
    "lemma_is_u32 bin (entryOffsets bin) (word_of_nat k + 1) = Inr e'"
    by blast
  with assms(3) have "s' = s" "e' = e" by simp_all
  with r show "lemma_is_u32 bin (entryOffsets bin) (word_of_int (int k)) = Inr s"
    and "lemma_is_u32 bin (entryOffsets bin) (word_of_int (int k) + 1) = Inr e"
    by simp_all
qed

text \<open>
  Claim C3, as the code has it. For a loaded dictionary and any word, the search for
  the lower-cased word either fails or finds an entry of the word index, whose entry
  range (start, end) lies in the buffer. When the lower-cased word is not in the index,
  when it is found with an empty range (start = end), and when it is found with
  start \<le> end and the loop over the range ends with no candidate, candidate resolution
  returns exactly the fallback candidate and \<open>icelandic_lexize\<close> exactly the lower-cased
  word, provided the array for end - start elements can be allocated. The loop ends
  with no candidate exactly when \<open>(int) end \<le> (int) start\<close>, which beside start = end
  happens for a start below \<open>2 ^ 31\<close> and an end from \<open>2 ^ 31\<close> on. When start \<le> end the
  result is never empty. When end < start, the guard of the code returns no candidate at
  all, and \<open>icelandic_lexize\<close> returns \<open>NULL\<close>. If the values stored in the tables are in
  bounds and the candidate array fits an allocation, both functions return.
\<close>

theorem candidate_fallback:
  assumes "lemma_is_load_binary buf = Loaded bin" and "word_index bin ws"
  shows "(lemma_is_find_word bin (lowerstr X word) = Inr (- 1)
          \<or> (\<exists>k < length ws. \<exists>s e. lemma_is_find_word bin (lowerstr X word) = Inr (int k)
                \<and> ws ! k = lowerstr X word \<and> entry_range bin k = Some (s, e)))
    \<and> (lowerstr X word \<notin> set ws \<longrightarrow>
          lemma_is_get_candidates X bin word = Inr [fallback (lowerstr X word)]
          \<and> icelandic_lexize X bin word = Inr (Some [lowerstr X word]))
    \<and> (\<forall>k s e. lemma_is_find_word bin (lowerstr X word) = Inr (int k)
              \<and> entry_range bin k = Some (s, e) \<longrightarrow>
          (s = e \<longrightarrow> lemma_is_get_candidates X bin word = Inr [fallback (lowerstr X word)]
                    \<and> icelandic_lexize X bin word = Inr (Some [(lowerstr X word)]))
          \<and> (e < s \<longrightarrow> lemma_is_get_candidates X bin word = Inr []
                        \<and> icelandic_lexize X bin word = Inr None)
          \<and> (s \<le> e \<longrightarrow> lemma_is_get_candidates X bin word \<noteq> Inr []
                        \<and> icelandic_lexize X bin word \<noteq> Inr None
                        \<and> icelandic_lexize X bin word \<noteq> Inr (Some []))
          \<and> (s \<le> e \<and> 16 * unat (e - s) \<le> MaxAllocSize
                \<and> cand_loop bin (sint s) (sint e) [] = Inr [] \<longrightarrow>
              lemma_is_get_candidates X bin word = Inr [fallback (lowerstr X word)])
          \<and> (s \<le> e \<and> 4 * unat (e - s) \<le> MaxAllocSize
                \<and> lexize_loop bin (sint s) (sint e) [] = Inr [] \<longrightarrow>
              icelandic_lexize X bin word = Inr (Some [(lowerstr X word)])))
    \<and> (\<forall>s e :: u32. (cand_loop bin (sint s) (sint e) [] = Inr [] \<longleftrightarrow> sint e \<le> sint s)
          \<and> (lexize_loop bin (sint s) (sint e) [] = Inr [] \<longleftrightarrow> sint e \<le> sint s))
    \<and> (stored_in_bounds bin \<and> 16 * unat (entryCount bin) \<le> MaxAllocSize \<longrightarrow>
          (\<exists>cs. lemma_is_get_candidates X bin word = Inr cs)
          \<and> (\<exists>r. icelandic_lexize X bin word = Inr r))"
proof -
  let ?w = "lowerstr X word"
  have lay: "layout bin" using loaded_layout[OF assms(1)] by simp
  have cases: "lemma_is_find_word bin ?w = Inr (- 1)
          \<or> (\<exists>k < length ws. \<exists>s e. lemma_is_find_word bin ?w = Inr (int k)
                \<and> ws ! k = ?w \<and> entry_range bin k = Some (s, e))"
    by (rule resolve_cases[OF lay assms(2), of ?w]) blast+
  have a: "lemma_is_get_candidates X bin word = Inr [fallback ?w]
          \<and> icelandic_lexize X bin word = Inr (Some [?w])" if "?w \<notin> set ws"
  proof -
    from cases have "lemma_is_find_word bin ?w = Inr (- 1)"
    proof
      assume "\<exists>k < length ws. \<exists>s e. lemma_is_find_word bin ?w = Inr (int k)
                \<and> ws ! k = ?w \<and> entry_range bin k = Some (s, e)"
      then obtain k where "k < length ws" "ws ! k = ?w" by blast
      then have "?w \<in> set ws" using nth_mem by metis
      with that show ?thesis by simp
    qed
    then show ?thesis
      by (simp add: lemma_is_get_candidates_def icelandic_lexize_def Let_def)
  qed
  have b: "(s = e \<longrightarrow> lemma_is_get_candidates X bin word = Inr [fallback ?w]
                    \<and> icelandic_lexize X bin word = Inr (Some [?w]))
          \<and> (e < s \<longrightarrow> lemma_is_get_candidates X bin word = Inr []
                        \<and> icelandic_lexize X bin word = Inr None)
          \<and> (s \<le> e \<longrightarrow> lemma_is_get_candidates X bin word \<noteq> Inr []
                        \<and> icelandic_lexize X bin word \<noteq> Inr None
                        \<and> icelandic_lexize X bin word \<noteq> Inr (Some []))
          \<and> (s \<le> e \<and> 16 * unat (e - s) \<le> MaxAllocSize
                \<and> cand_loop bin (sint s) (sint e) [] = Inr [] \<longrightarrow>
              lemma_is_get_candidates X bin word = Inr [fallback ?w])
          \<and> (s \<le> e \<and> 4 * unat (e - s) \<le> MaxAllocSize
                \<and> lexize_loop bin (sint s) (sint e) [] = Inr [] \<longrightarrow>
              icelandic_lexize X bin word = Inr (Some [?w]))"
    if f: "lemma_is_find_word bin ?w = Inr (int k)" and r: "entry_range bin k = Some (s, e)"
    for k s e
  proof -
    from cases have "k < length ws"
    proof
      assume "lemma_is_find_word bin ?w = Inr (- 1)"
      with f show ?thesis by simp
    next
      assume "\<exists>k < length ws. \<exists>s e. lemma_is_find_word bin ?w = Inr (int k)
                \<and> ws ! k = ?w \<and> entry_range bin k = Some (s, e)"
      then obtain k' where "k' < length ws" "lemma_is_find_word bin ?w = Inr (int k')" by blast
      with f show ?thesis by simp
    qed
    then have "k < unat (wordCount bin)" using assms(2) by (simp add: word_index_def)
    note rd = entry_range_reads[OF lay this r]
    note R = resolve_found[OF f rd]
    from R(1) have i1: "s = e \<longrightarrow> lemma_is_get_candidates X bin word = Inr [fallback ?w]
                    \<and> icelandic_lexize X bin word = Inr (Some [?w])" by (rule impI)
    from R(2) have i2: "e < s \<longrightarrow> lemma_is_get_candidates X bin word = Inr []
                        \<and> icelandic_lexize X bin word = Inr None" by (rule impI)
    from R(3) have i3: "s \<le> e \<longrightarrow> lemma_is_get_candidates X bin word \<noteq> Inr []
                        \<and> icelandic_lexize X bin word \<noteq> Inr None
                        \<and> icelandic_lexize X bin word \<noteq> Inr (Some [])" by (rule impI)
    from R(4) have i4: "s \<le> e \<and> 16 * unat (e - s) \<le> MaxAllocSize
                \<and> cand_loop bin (sint s) (sint e) [] = Inr [] \<longrightarrow>
              lemma_is_get_candidates X bin word = Inr [fallback ?w]" by (rule impI)
    from R(5) have i5: "s \<le> e \<and> 4 * unat (e - s) \<le> MaxAllocSize
                \<and> lexize_loop bin (sint s) (sint e) [] = Inr [] \<longrightarrow>
              icelandic_lexize X bin word = Inr (Some [?w])" by (rule impI)
    show ?thesis by (rule conjI[OF i1 conjI[OF i2 conjI[OF i3 conjI[OF i4 i5]]]])
  qed
  have c: "(\<exists>cs. lemma_is_get_candidates X bin word = Inr cs)
          \<and> (\<exists>r. icelandic_lexize X bin word = Inr r)"
    if "stored_in_bounds bin" "16 * unat (entryCount bin) \<le> MaxAllocSize"
    using resolve_in_bounds(3)[OF lay that] .
  from b have b': "(\<forall>k s e. lemma_is_find_word bin ?w = Inr (int k)
              \<and> entry_range bin k = Some (s, e) \<longrightarrow>
          (s = e \<longrightarrow> lemma_is_get_candidates X bin word = Inr [fallback ?w]
                    \<and> icelandic_lexize X bin word = Inr (Some [?w]))
          \<and> (e < s \<longrightarrow> lemma_is_get_candidates X bin word = Inr []
                        \<and> icelandic_lexize X bin word = Inr None)
          \<and> (s \<le> e \<longrightarrow> lemma_is_get_candidates X bin word \<noteq> Inr []
                        \<and> icelandic_lexize X bin word \<noteq> Inr None
                        \<and> icelandic_lexize X bin word \<noteq> Inr (Some []))
          \<and> (s \<le> e \<and> 16 * unat (e - s) \<le> MaxAllocSize
                \<and> cand_loop bin (sint s) (sint e) [] = Inr [] \<longrightarrow>
              lemma_is_get_candidates X bin word = Inr [fallback ?w])
          \<and> (s \<le> e \<and> 4 * unat (e - s) \<le> MaxAllocSize
                \<and> lexize_loop bin (sint s) (sint e) [] = Inr [] \<longrightarrow>
              icelandic_lexize X bin word = Inr (Some [?w])))"
    by (intro allI impI) (elim conjE)
  from a have a': "?w \<notin> set ws \<longrightarrow>
          lemma_is_get_candidates X bin word = Inr [fallback ?w]
          \<and> icelandic_lexize X bin word = Inr (Some [?w])" by (rule impI)
  have d': "\<forall>s e :: u32. (cand_loop bin (sint s) (sint e) [] = Inr [] \<longleftrightarrow> sint e \<le> sint s)
          \<and> (lexize_loop bin (sint s) (sint e) [] = Inr [] \<longleftrightarrow> sint e \<le> sint s)"
    by (simp add: cand_loop_none lexize_loop_none not_less)
  from c have c': "stored_in_bounds bin \<and> 16 * unat (entryCount bin) \<le> MaxAllocSize \<longrightarrow>
          (\<exists>cs. lemma_is_get_candidates X bin word = Inr cs)
          \<and> (\<exists>r. icelandic_lexize X bin word = Inr r)"
    by (intro impI) (elim conjE)
  show ?thesis by (rule conjI[OF cases conjI[OF a' conjI[OF b' conjI[OF d' c']]]])
qed

subsection \<open>Resolution on concrete files\<close>

text \<open>
  A file with one word, \<open>a\<close>, whose entry range is stored as (1, 0): the loader
  accepts it, and the range is inverted.
\<close>

definition inverted_range_file :: bytes where
  "inverted_range_file =
     [65, 77, 69, 76, 1, 0, 0, 0, 1, 0, 0, 0, 0, 0, 0, 0, 1, 0, 0, 0, 0, 0, 0, 0,
      0, 0, 0, 0, 0, 0, 0, 0] @
     [97] @
     [0, 0, 0] @
     [0, 0, 0, 0] @
     [1, 0, 0, 0] @
     [1, 0, 0, 0, 0, 0, 0, 0]"

definition inverted_range_bin :: LemmaIsBinary where
  "inverted_range_bin =
     \<lparr>data = inverted_range_file, size' = 52, version = 1, stringPoolSize = 1, lemmaCount = 0,
      wordCount = 1, entryCount = 0, bigramCount = 0, stringPool = 32, lemmaOffsets = 33,
      lemmaLengths = 33, wordOffsets = 36, wordLengths = 40, entryOffsets = 44,
      entries = 52, bigramW1Offsets = None, bigramW1Lengths = None,
      bigramW2Offsets = None, bigramW2Lengths = None, bigramFreqs = None\<rparr>"

lemmas eval_read =
  lemma_is_u32_def byte_at_def in_bounds_def rd_u32_def rd_u8_def rd_mem_def le32_def

lemmas eval_find =
  lemma_is_find_word_def find_loop.simps INT_MAX_def Let_def lemma_is_compare_word_def
  compare_view_def eval_read

lemma inverted_range_loads: "lemma_is_load_binary inverted_range_file = Loaded inverted_range_bin"
  by (simp add: lemma_is_load_binary_def hdr_def rd_u32_def le32_def MaxAllocSize_def
      load_tables_def load_bigrams_def Let_def align4_def inverted_range_file_def
      inverted_range_bin_def)

lemma inverted_range_find:
  "lemma_is_find_word inverted_range_bin (lowerstr example_externals (bytes_of ''a'')) = Inr (int 0)"
  by (simp add: eval_find inverted_range_bin_def inverted_range_file_def bytes_of_def
      example_externals_def)

lemma inverted_range_reads:
  "lemma_is_u32 inverted_range_bin (entryOffsets inverted_range_bin) (word_of_int (int 0)) = Inr 1"
  "lemma_is_u32 inverted_range_bin (entryOffsets inverted_range_bin) (word_of_int (int 0) + 1)
     = Inr 0"
  by (simp_all add: eval_read inverted_range_bin_def inverted_range_file_def)

text \<open>
  The claim as stated has candidate resolution and \<open>lemmatizeWord\<close> never return an
  empty result for a loaded dictionary. On the file above, the word \<open>a\<close> is found,
  its range has end < start, and the results are no candidate and \<open>NULL\<close>.
\<close>

theorem inverted_range_counterexample:
  "lemma_is_load_binary inverted_range_file = Loaded inverted_range_bin
   \<and> lemma_is_get_candidates example_externals inverted_range_bin (bytes_of ''a'') = Inr []
   \<and> icelandic_lexize example_externals inverted_range_bin (bytes_of ''a'') = Inr None"
  using inverted_range_loads
    resolve_found(2)[OF inverted_range_find inverted_range_reads]
  by simp

lemma all_less_3: "(\<forall>i < 3. P i) \<longleftrightarrow> P 0 \<and> P 1 \<and> P (2::nat)"
  by (auto simp: numeral_3_eq_3 less_Suc_eq numeral_2_eq_2)

lemma example_stored_in_bounds: "stored_in_bounds example_bin"
proof -
  have f: "wordCount example_bin = 3" "lemmaCount example_bin = 3" "entryCount example_bin = 3"
    "wordOffsets example_bin = 64" "wordLengths example_bin = 76"
    "lemmaOffsets example_bin = 46" "lemmaLengths example_bin = 58"
    "entries example_bin = 96" "data example_bin = example_file"
    "entryOffsets example_bin = 80" "stringPoolSize example_bin = 14" "version example_bin = 1"
    by (simp_all add: example_bin_def)
  have u: "unat (3 :: u32) = 3" by simp
  have w: "\<forall>i < 3. view_in_pool example_bin (wordOffsets example_bin) (wordLengths example_bin) i"
    unfolding all_less_3 view_in_pool_def f
    by (simp add: rd_u32_def rd_u8_def le32_def example_file_def)
  have l: "\<forall>i < 3. view_in_pool example_bin (lemmaOffsets example_bin) (lemmaLengths example_bin) i"
    unfolding all_less_3 view_in_pool_def f
    by (simp add: rd_u32_def rd_u8_def le32_def example_file_def)
  have r: "\<forall>i < 3. case entry_range example_bin i of
             Some (s, e) \<Rightarrow> unat e \<le> 3 | None \<Rightarrow> False"
    unfolding all_less_3 entry_range_def f
    by (simp add: rd_u32_def le32_def example_file_def)
  have e: "\<forall>j < 3. case rd_u32 (data example_bin) (entries example_bin + 4 * j) of
             Some packed \<Rightarrow> unat (lemmaIdx (lemma_is_unpack_entry example_bin packed)) < 3
           | None \<Rightarrow> False"
    unfolding all_less_3 f lemma_is_unpack_entry_def
    by (simp add: rd_u32_def le32_def example_file_def drop_bit_eq_div)
  show ?thesis
    unfolding stored_in_bounds_def f(1,2,3) u using w l r e by blast
qed

lemma example_find_er:
  "lemma_is_find_word example_bin (lowerstr example_externals (bytes_of ''Er'')) = Inr (int 0)"
  by (simp add: eval_find example_bin_def example_file_def bytes_of_def example_externals_def)

lemma example_range_er: "entry_range example_bin 0 = Some (0, 0)"
  by (simp add: entry_range_def rd_u32_def le32_def example_bin_def example_file_def)

text \<open>
  A file with one word, \<open>a\<close>, whose entry range is stored as
  (\<open>0x7FFFFFFF\<close>, \<open>0x80000000\<close>): start \<le> end as unsigned values, and
  \<open>(int) end < (int) start\<close>, so that the loop over the range adds no candidate.
\<close>

definition wrapped_range_file :: bytes where
  "wrapped_range_file =
     [65, 77, 69, 76, 1, 0, 0, 0, 1, 0, 0, 0, 0, 0, 0, 0, 1, 0, 0, 0, 0, 0, 0, 0,
      0, 0, 0, 0, 0, 0, 0, 0] @
     [97] @
     [0, 0, 0] @
     [0, 0, 0, 0] @
     [1, 0, 0, 0] @
     [255, 255, 255, 127, 0, 0, 0, 128]"

definition wrapped_range_bin :: LemmaIsBinary where
  "wrapped_range_bin =
     \<lparr>data = wrapped_range_file, size' = 52, version = 1, stringPoolSize = 1, lemmaCount = 0,
      wordCount = 1, entryCount = 0, bigramCount = 0, stringPool = 32, lemmaOffsets = 33,
      lemmaLengths = 33, wordOffsets = 36, wordLengths = 40, entryOffsets = 44,
      entries = 52, bigramW1Offsets = None, bigramW1Lengths = None,
      bigramW2Offsets = None, bigramW2Lengths = None, bigramFreqs = None\<rparr>"

lemma wrapped_range_loads: "lemma_is_load_binary wrapped_range_file = Loaded wrapped_range_bin"
  by (simp add: lemma_is_load_binary_def hdr_def rd_u32_def le32_def MaxAllocSize_def
      load_tables_def load_bigrams_def Let_def align4_def wrapped_range_file_def
      wrapped_range_bin_def)

lemma wrapped_word_index: "word_index wrapped_range_bin [bytes_of ''a'']"
  by (simp add: word_index_def word_at_def stored_string_def rd_u32_def rd_u8_def rd_mem_def
      le32_def wrapped_range_bin_def wrapped_range_file_def bytes_of_def)

lemma wrapped_range_find:
  "lemma_is_find_word wrapped_range_bin (lowerstr example_externals (bytes_of ''a'')) = Inr (int 0)"
  by (simp add: eval_find wrapped_range_bin_def wrapped_range_file_def bytes_of_def
      example_externals_def)

lemma wrapped_range: "entry_range wrapped_range_bin 0 = Some (0x7FFFFFFF, 0x80000000)"
  by (simp add: entry_range_def rd_u32_def le32_def wrapped_range_bin_def
      wrapped_range_file_def)

lemma wrapped_values:
  "(0x7FFFFFFF :: u32) \<le> 0x80000000" "unat (0x80000000 - 0x7FFFFFFF :: u32) = 1"
  "sint (0x80000000 :: u32) \<le> sint (0x7FFFFFFF :: u32)"
  by simp_all

theorem candidate_fallback_witness:
  "lemma_is_load_binary example_file = Loaded example_bin
   \<and> word_index example_bin example_words
   \<and> lowerstr example_externals (bytes_of ''Zeta'') \<notin> set example_words
   \<and> lemma_is_get_candidates example_externals example_bin (bytes_of ''Zeta'')
       = Inr [fallback (bytes_of ''zeta'')]
   \<and> icelandic_lexize example_externals example_bin (bytes_of ''Zeta'')
       = Inr (Some [bytes_of ''zeta''])
   \<and> lemma_is_find_word example_bin (lowerstr example_externals (bytes_of ''Er'')) = Inr (int 0)
   \<and> entry_range example_bin 0 = Some (0, 0)
   \<and> lemma_is_get_candidates example_externals example_bin (bytes_of ''Er'')
       = Inr [fallback (bytes_of ''er'')]
   \<and> icelandic_lexize example_externals example_bin (bytes_of ''Er'')
       = Inr (Some [bytes_of ''er''])
   \<and> stored_in_bounds example_bin \<and> 16 * unat (entryCount example_bin) \<le> MaxAllocSize
   \<and> (\<exists>cs. lemma_is_get_candidates example_externals example_bin (bytes_of ''fer'') = Inr cs)
   \<and> lemma_is_load_binary wrapped_range_file = Loaded wrapped_range_bin
   \<and> word_index wrapped_range_bin [bytes_of ''a'']
   \<and> lemma_is_find_word wrapped_range_bin (lowerstr example_externals (bytes_of ''a''))
       = Inr (int 0)
   \<and> entry_range wrapped_range_bin 0 = Some (0x7FFFFFFF, 0x80000000)
   \<and> cand_loop wrapped_range_bin (sint (0x7FFFFFFF :: u32)) (sint (0x80000000 :: u32)) []
       = Inr []
   \<and> lexize_loop wrapped_range_bin (sint (0x7FFFFFFF :: u32)) (sint (0x80000000 :: u32)) []
       = Inr []
   \<and> lemma_is_get_candidates example_externals wrapped_range_bin (bytes_of ''a'')
       = Inr [fallback (bytes_of ''a'')]
   \<and> icelandic_lexize example_externals wrapped_range_bin (bytes_of ''a'')
       = Inr (Some [bytes_of ''a''])"
proof -
  note T = candidate_fallback[OF example_file_loads example_word_index, of example_externals]
  note W = candidate_fallback[OF wrapped_range_loads wrapped_word_index, of example_externals
      "bytes_of ''a''"]
  have z: "lowerstr example_externals (bytes_of ''Zeta'') = bytes_of ''zeta''"
    "lowerstr example_externals (bytes_of ''Er'') = bytes_of ''er''"
    "lowerstr example_externals (bytes_of ''a'') = bytes_of ''a''"
    by (simp_all add: example_externals_def bytes_of_def)
  have nz: "lowerstr example_externals (bytes_of ''Zeta'') \<notin> set example_words"
    by (simp add: example_externals_def bytes_of_def example_words_def)
  have sz: "16 * unat (entryCount example_bin) \<le> MaxAllocSize"
    by (simp add: example_bin_def MaxAllocSize_def)
  have a: "lemma_is_get_candidates example_externals example_bin (bytes_of ''Zeta'')
       = Inr [fallback (bytes_of ''zeta'')]
     \<and> icelandic_lexize example_externals example_bin (bytes_of ''Zeta'')
       = Inr (Some [bytes_of ''zeta''])"
    using T[of "bytes_of ''Zeta''"] nz unfolding z by blast
  have b: "lemma_is_get_candidates example_externals example_bin (bytes_of ''Er'')
       = Inr [fallback (bytes_of ''er'')]
     \<and> icelandic_lexize example_externals example_bin (bytes_of ''Er'')
       = Inr (Some [bytes_of ''er''])"
    using T[of "bytes_of ''Er''"] example_find_er example_range_er unfolding z by blast
  have c: "\<exists>cs. lemma_is_get_candidates example_externals example_bin (bytes_of ''fer'') = Inr cs"
    using T[of "bytes_of ''fer''"] example_stored_in_bounds sz by blast
  have sz1: "16 * unat (0x80000000 - 0x7FFFFFFF :: u32) \<le> MaxAllocSize"
    "4 * unat (0x80000000 - 0x7FFFFFFF :: u32) \<le> MaxAllocSize"
    unfolding wrapped_values(2) by (simp_all add: MaxAllocSize_def)
  from W wrapped_values(3)
  have l: "cand_loop wrapped_range_bin (sint (0x7FFFFFFF :: u32)) (sint (0x80000000 :: u32)) []
       = Inr []"
    "lexize_loop wrapped_range_bin (sint (0x7FFFFFFF :: u32)) (sint (0x80000000 :: u32)) []
       = Inr []"
    by blast+
  have d: "lemma_is_get_candidates example_externals wrapped_range_bin (bytes_of ''a'')
       = Inr [fallback (bytes_of ''a'')]
     \<and> icelandic_lexize example_externals wrapped_range_bin (bytes_of ''a'')
       = Inr (Some [bytes_of ''a''])"
    using W wrapped_range_find wrapped_range wrapped_values(1) sz1 l unfolding z by blast
  show ?thesis
    using example_file_loads example_word_index nz a b c example_find_er example_range_er
      example_stored_in_bounds sz wrapped_range_loads wrapped_word_index wrapped_range_find
      wrapped_range l d
    by blast
qed

section \<open>Stored values are used unchecked\<close>

text \<open>
  Four files that the loader accepts, each with one word \<open>a\<close> and one stored value
  that points outside: the offset of the word's view, the end of the word's entry range
  (5, with no entry in the file), the lemma id of the word's entry (\<open>0xFFFFFFF\<close>, with
  no lemma in the file), and the offset of the view of the entry's lemma.
\<close>

definition wild_word_file :: bytes where
  "wild_word_file =
     [65, 77, 69, 76, 1, 0, 0, 0,
      1, 0, 0, 0, 0, 0, 0, 0, 1, 0, 0, 0, 0, 0, 0, 0, 0, 0, 0, 0, 0, 0, 0, 0] @
     [97] @
     [0, 0, 0] @
     [0, 255, 255, 255] @
     [1, 0, 0, 0] @
     [0, 0, 0, 0, 0, 0, 0, 0]"

definition wild_word_bin :: LemmaIsBinary where
  "wild_word_bin =
     \<lparr>data = wild_word_file, size' = 52, version = 1, stringPoolSize = 1, lemmaCount = 0,
      wordCount = 1, entryCount = 0, bigramCount = 0, stringPool = 32, lemmaOffsets = 33,
      lemmaLengths = 33, wordOffsets = 36, wordLengths = 40, entryOffsets = 44,
      entries = 52, bigramW1Offsets = None, bigramW1Lengths = None,
      bigramW2Offsets = None, bigramW2Lengths = None, bigramFreqs = None\<rparr>"

definition wild_range_file :: bytes where
  "wild_range_file =
     [65, 77, 69, 76, 1, 0, 0, 0,
      1, 0, 0, 0, 0, 0, 0, 0, 1, 0, 0, 0, 0, 0, 0, 0, 0, 0, 0, 0, 0, 0, 0, 0] @
     [97] @
     [0, 0, 0] @
     [0, 0, 0, 0] @
     [1, 0, 0, 0] @
     [0, 0, 0, 0, 5, 0, 0, 0]"

definition wild_range_bin :: LemmaIsBinary where
  "wild_range_bin =
     \<lparr>data = wild_range_file, size' = 52, version = 1, stringPoolSize = 1, lemmaCount = 0,
      wordCount = 1, entryCount = 0, bigramCount = 0, stringPool = 32, lemmaOffsets = 33,
      lemmaLengths = 33, wordOffsets = 36, wordLengths = 40, entryOffsets = 44,
      entries = 52, bigramW1Offsets = None, bigramW1Lengths = None,
      bigramW2Offsets = None, bigramW2Lengths = None, bigramFreqs = None\<rparr>"

definition wild_lemma_file :: bytes where
  "wild_lemma_file =
     [65, 77, 69, 76, 1, 0, 0, 0,
      1, 0, 0, 0, 0, 0, 0, 0, 1, 0, 0, 0, 1, 0, 0, 0, 0, 0, 0, 0, 0, 0, 0, 0] @
     [97] @
     [0, 0, 0] @
     [0, 0, 0, 0] @
     [1, 0, 0, 0] @
     [0, 0, 0, 0, 1, 0, 0, 0] @
     [240, 255, 255, 255]"

definition wild_lemma_bin :: LemmaIsBinary where
  "wild_lemma_bin =
     \<lparr>data = wild_lemma_file, size' = 56, version = 1, stringPoolSize = 1, lemmaCount = 0,
      wordCount = 1, entryCount = 1, bigramCount = 0, stringPool = 32, lemmaOffsets = 33,
      lemmaLengths = 33, wordOffsets = 36, wordLengths = 40, entryOffsets = 44,
      entries = 52, bigramW1Offsets = None, bigramW1Lengths = None,
      bigramW2Offsets = None, bigramW2Lengths = None, bigramFreqs = None\<rparr>"

definition wild_view_file :: bytes where
  "wild_view_file =
     [65, 77, 69, 76, 1, 0, 0, 0,
      1, 0, 0, 0, 1, 0, 0, 0, 1, 0, 0, 0, 1, 0, 0, 0, 0, 0, 0, 0, 0, 0, 0, 0] @
     [97] @
     [0, 255, 255, 255] @
     [4, 0, 0] @
     [0, 0, 0, 0] @
     [1, 0, 0, 0] @
     [0, 0, 0, 0, 1, 0, 0, 0] @
     [0, 0, 0, 0]"

definition wild_view_bin :: LemmaIsBinary where
  "wild_view_bin =
     \<lparr>data = wild_view_file, size' = 60, version = 1, stringPoolSize = 1, lemmaCount = 1,
      wordCount = 1, entryCount = 1, bigramCount = 0, stringPool = 32, lemmaOffsets = 33,
      lemmaLengths = 37, wordOffsets = 40, wordLengths = 44, entryOffsets = 48,
      entries = 56, bigramW1Offsets = None, bigramW1Lengths = None,
      bigramW2Offsets = None, bigramW2Lengths = None, bigramFreqs = None\<rparr>"

lemmas eval_load =
  lemma_is_load_binary_def hdr_def rd_u32_def le32_def MaxAllocSize_def load_tables_def
  load_bigrams_def Let_def align4_def

lemmas eval_candidates =
  lemma_is_get_candidates_def cand_loop.simps palloc_def MaxAllocSize_def
  lemma_is_unpack_entry_def lemma_is_pos_from_code_def lemma_is_get_lemma_def pnstrdup_def
  drop_bit_eq_div

lemma wild_files_load:
  "lemma_is_load_binary wild_word_file = Loaded wild_word_bin"
  "lemma_is_load_binary wild_range_file = Loaded wild_range_bin"
  "lemma_is_load_binary wild_lemma_file = Loaded wild_lemma_bin"
  "lemma_is_load_binary wild_view_file = Loaded wild_view_bin"
  by (simp_all add: eval_load wild_word_file_def wild_word_bin_def wild_range_file_def
      wild_range_bin_def wild_lemma_file_def wild_lemma_bin_def wild_view_file_def
      wild_view_bin_def)

lemma lower_a: "lowerstr example_externals (bytes_of ''a'') = [97]"
  by (simp add: example_externals_def bytes_of_def)

lemma wild_word_faults:
  "lemma_is_find_word wild_word_bin [97] = Inl ReadOutOfBounds"
  by (simp add: eval_find wild_word_bin_def wild_word_file_def)

lemma wild_finds:
  "lemma_is_find_word wild_range_bin [97] = Inr 0"
  "lemma_is_find_word wild_lemma_bin [97] = Inr 0"
  "lemma_is_find_word wild_view_bin [97] = Inr 0"
  by (simp_all add: eval_find wild_range_bin_def wild_range_file_def wild_lemma_bin_def
      wild_lemma_file_def wild_view_bin_def wild_view_file_def)

lemma wild_range_faults:
  "lemma_is_get_candidates example_externals wild_range_bin (bytes_of ''a'')
     = Inl ReadOutOfBounds"
  unfolding lemma_is_get_candidates_def lower_a Let_def wild_finds
  by (simp add: eval_candidates eval_read wild_range_bin_def wild_range_file_def)

lemma wild_lemma_faults:
  "lemma_is_get_candidates example_externals wild_lemma_bin (bytes_of ''a'')
     = Inl ReadOutOfBounds"
  unfolding lemma_is_get_candidates_def lower_a Let_def wild_finds
  by (simp add: eval_candidates eval_read wild_lemma_bin_def wild_lemma_file_def)

lemma wild_view_faults:
  "lemma_is_get_candidates example_externals wild_view_bin (bytes_of ''a'')
     = Inl ReadOutOfBounds"
  unfolding lemma_is_get_candidates_def lower_a Let_def wild_finds
  by (simp add: eval_candidates eval_read wild_view_bin_def wild_view_file_def)

text \<open>
  Claim C10. After a successful load the stored values are used as they are: a word
  or lemma view is read from the string pool without a check against the pool or the
  buffer, a lemma id indexes the lemma table without a check against \<open>lemmaCount\<close>,
  and an entry range indexes the entries without a check against \<open>entryCount\<close>.
  The reads stay inside the buffer under the condition that every stored view lies in
  the string pool, every range end is at most \<open>entryCount\<close> and every lemma id is
  below \<open>lemmaCount\<close>; the four files above, which the loader accepts, break one of
  these each and make the code read outside the buffer.
\<close>

theorem stored_values_unchecked:
  "(lemma_is_load_binary buf = Loaded bin \<and> stored_in_bounds bin \<longrightarrow>
      lemma_is_find_word bin word \<noteq> Inl ReadOutOfBounds
      \<and> lemma_is_get_candidates X bin word \<noteq> Inl ReadOutOfBounds
      \<and> icelandic_lexize X bin word \<noteq> Inl ReadOutOfBounds
      \<and> (\<forall>idx. unat idx < unat (lemmaCount bin) \<longrightarrow>
            lemma_is_get_lemma bin idx \<noteq> Inl ReadOutOfBounds))
   \<and> lemma_is_load_binary wild_word_file = Loaded wild_word_bin
   \<and> lemma_is_find_word wild_word_bin (bytes_of ''a'') = Inl ReadOutOfBounds
   \<and> lemma_is_load_binary wild_range_file = Loaded wild_range_bin
   \<and> lemma_is_get_candidates example_externals wild_range_bin (bytes_of ''a'')
       = Inl ReadOutOfBounds
   \<and> lemma_is_load_binary wild_lemma_file = Loaded wild_lemma_bin
   \<and> lemma_is_get_candidates example_externals wild_lemma_bin (bytes_of ''a'')
       = Inl ReadOutOfBounds
   \<and> lemma_is_load_binary wild_view_file = Loaded wild_view_bin
   \<and> lemma_is_get_candidates example_externals wild_view_bin (bytes_of ''a'')
       = Inl ReadOutOfBounds"
proof -
  have suff: "lemma_is_find_word bin word \<noteq> Inl ReadOutOfBounds
      \<and> lemma_is_get_candidates X bin word \<noteq> Inl ReadOutOfBounds
      \<and> icelandic_lexize X bin word \<noteq> Inl ReadOutOfBounds
      \<and> (\<forall>idx. unat idx < unat (lemmaCount bin) \<longrightarrow>
            lemma_is_get_lemma bin idx \<noteq> Inl ReadOutOfBounds)"
    if ld: "lemma_is_load_binary buf = Loaded bin" and sb: "stored_in_bounds bin"
  proof -
    have lay: "layout bin" using loaded_layout[OF ld] by simp
    obtain ws where wi: "word_index bin ws" using word_index_exists[OF lay sb] by blast
    have a: "lemma_is_find_word bin word \<noteq> Inl ReadOutOfBounds"
      using find_word_result[OF lay wi, of word] by auto
    have b: "lemma_is_get_candidates X bin word \<noteq> Inl ReadOutOfBounds"
      using resolve_in_bounds(1)[OF lay sb, of X word] by auto
    have c: "icelandic_lexize X bin word \<noteq> Inl ReadOutOfBounds"
      using resolve_in_bounds(2)[OF lay sb, of X word] by auto
    have d: "lemma_is_get_lemma bin idx \<noteq> Inl ReadOutOfBounds"
      if "unat idx < unat (lemmaCount bin)" for idx
    proof -
      have "view_in_pool bin (lemmaOffsets bin) (lemmaLengths bin) (unat idx)"
        using sb that unfolding stored_in_bounds_def by blast
      from get_lemma_in_bounds[OF lay this] show ?thesis by auto
    qed
    show ?thesis using a b c d by blast
  qed
  have w: "lemma_is_find_word wild_word_bin (bytes_of ''a'') = Inl ReadOutOfBounds"
    using wild_word_faults by (simp add: bytes_of_def)
  from suff have s': "lemma_is_load_binary buf = Loaded bin \<and> stored_in_bounds bin \<longrightarrow>
      lemma_is_find_word bin word \<noteq> Inl ReadOutOfBounds
      \<and> lemma_is_get_candidates X bin word \<noteq> Inl ReadOutOfBounds
      \<and> icelandic_lexize X bin word \<noteq> Inl ReadOutOfBounds
      \<and> (\<forall>idx. unat idx < unat (lemmaCount bin) \<longrightarrow>
            lemma_is_get_lemma bin idx \<noteq> Inl ReadOutOfBounds)"
    by (intro impI) (elim conjE)
  show ?thesis
    by (intro conjI s' wild_files_load w wild_range_faults wild_lemma_faults wild_view_faults)
qed

theorem stored_values_unchecked_witness:
  "lemma_is_load_binary example_file = Loaded example_bin \<and> stored_in_bounds example_bin
   \<and> lemma_is_find_word example_bin (bytes_of ''fer'') \<noteq> Inl ReadOutOfBounds
   \<and> lemma_is_get_candidates example_externals example_bin (bytes_of ''fer'')
       \<noteq> Inl ReadOutOfBounds
   \<and> icelandic_lexize example_externals example_bin (bytes_of ''fer'') \<noteq> Inl ReadOutOfBounds
   \<and> unat (2 :: u32) < unat (lemmaCount example_bin)
   \<and> lemma_is_get_lemma example_bin 2 \<noteq> Inl ReadOutOfBounds"
proof -
  have lc: "unat (2 :: u32) < unat (lemmaCount example_bin)" by (simp add: example_bin_def)
  from stored_values_unchecked[of example_file example_bin "bytes_of ''fer''" example_externals]
    example_file_loads example_stored_in_bounds lc
  have "lemma_is_find_word example_bin (bytes_of ''fer'') \<noteq> Inl ReadOutOfBounds
   \<and> lemma_is_get_candidates example_externals example_bin (bytes_of ''fer'')
       \<noteq> Inl ReadOutOfBounds
   \<and> icelandic_lexize example_externals example_bin (bytes_of ''fer'') \<noteq> Inl ReadOutOfBounds
   \<and> lemma_is_get_lemma example_bin 2 \<noteq> Inl ReadOutOfBounds"
    by blast
  with example_file_loads example_stored_in_bounds lc show ?thesis by blast
qed

section \<open>Disambiguator\<close>

text \<open>
  The two inner loops of \<open>lemma_is_disambiguate_bigram\<close> add \<open>log((double) freq + 1.0)\<close>
  to the score of a candidate for every neighbouring candidate with a bigram of
  non-zero frequency. A \<open>NULL\<close> neighbour array is the empty list.
\<close>

fun prev_loop ::
  "externals \<Rightarrow> LemmaIsBinary \<Rightarrow> LemmaCandidate list \<Rightarrow> bytes \<Rightarrow> double \<Rightarrow> double res" where
  "prev_loop X bin [] lem score = Inr score"
| "prev_loop X bin (p # ps) lem score =
     seq (lemma_is_bigram_freq bin (c_lemma p) lem) (\<lambda>freq.
       prev_loop X bin ps lem
         (if 0 < freq then d_add score (libm_log X (d_add (of_uint32 freq) (Finite 1)))
          else score))"

fun next_loop ::
  "externals \<Rightarrow> LemmaIsBinary \<Rightarrow> LemmaCandidate list \<Rightarrow> bytes \<Rightarrow> double \<Rightarrow> double res" where
  "next_loop X bin [] lem score = Inr score"
| "next_loop X bin (q # qs) lem score =
     seq (lemma_is_bigram_freq bin lem (c_lemma q)) (\<lambda>freq.
       next_loop X bin qs lem
         (if 0 < freq then d_add score (libm_log X (d_add (of_uint32 freq) (Finite 1)))
          else score))"

definition candidate_score ::
  "externals \<Rightarrow> LemmaIsBinary \<Rightarrow> LemmaCandidate list \<Rightarrow> LemmaCandidate list
   \<Rightarrow> LemmaCandidate \<Rightarrow> double res"
  where
  "candidate_score X bin prev_candidates next_candidates c =
     seq (prev_loop X bin prev_candidates (c_lemma c) (Finite 0)) (\<lambda>score.
       next_loop X bin next_candidates (c_lemma c) score)"

text \<open>
  The outer loop over the candidates, from candidate \<open>i\<close> on, with the scores stored
  so far, \<open>best_score\<close> and \<open>best_idx\<close>.
\<close>

fun score_loop ::
  "externals \<Rightarrow> LemmaIsBinary \<Rightarrow> LemmaCandidate list \<Rightarrow> LemmaCandidate list
   \<Rightarrow> LemmaCandidate list \<Rightarrow> nat \<Rightarrow> double list \<Rightarrow> double \<Rightarrow> nat
   \<Rightarrow> (double list \<times> double \<times> nat) res" where
  "score_loop X bin prev_candidates next_candidates [] i scores best_score best_idx =
     Inr (scores, best_score, best_idx)"
| "score_loop X bin prev_candidates next_candidates (c # cs) i scores best_score best_idx =
     seq (candidate_score X bin prev_candidates next_candidates c) (\<lambda>score.
       if d_gt score best_score
       then score_loop X bin prev_candidates next_candidates cs (i + 1) (scores @ [score])
              score i
       else score_loop X bin prev_candidates next_candidates cs (i + 1) (scores @ [score])
              best_score best_idx)"

text \<open>The loop \<open>total += exp(scores[i])\<close>, from \<open>total = 0.0\<close>.\<close>

definition exp_total :: "externals \<Rightarrow> double list \<Rightarrow> double" where
  "exp_total X scores = foldl (\<lambda>total score. d_add total (libm_exp X score)) (Finite 0) scores"

text \<open>
  The result is \<open>None\<close> when the function returns false (no candidate), and the values
  of the out parameters otherwise. The array of scores has 8 bytes for each candidate
  of an array that was allocated with 16 bytes for each, so that its allocation cannot
  be refused for its size.
\<close>

definition lemma_is_disambiguate_bigram ::
  "externals \<Rightarrow> LemmaIsBinary \<Rightarrow> LemmaCandidate list \<Rightarrow> LemmaCandidate list
   \<Rightarrow> LemmaCandidate list \<Rightarrow> Disambiguated option res" where
  "lemma_is_disambiguate_bigram X bin candidates prev_candidates next_candidates =
     (if length candidates \<le> 0 then Inr None
      else
        seq (score_loop X bin prev_candidates next_candidates candidates 0 [] (Finite 0) 0)
          (\<lambda>(scores, best_score, best_idx).
             let (confidence, by_bigram) =
                   (if d_gt best_score (Finite 0)
                    then (let total = exp_total X scores
                          in if d_gt total (Finite 0)
                             then d_div (libm_exp X best_score) total
                             else Finite (1 / 2), True)
                    else (Finite 0, False))
             in Inr (Some \<lparr>out_lemma = c_lemma (candidates ! best_idx),
                            out_pos = c_pos (candidates ! best_idx),
                            out_confidence = confidence,
                            out_by_bigram = by_bigram\<rparr>)))"

text \<open>
  The selection that the outer loop makes, on the list of scores alone: the running
  best score and its index.
\<close>

fun pick :: "double list \<Rightarrow> nat \<Rightarrow> double \<Rightarrow> nat \<Rightarrow> double \<times> nat" where
  "pick [] i best_score best_idx = (best_score, best_idx)"
| "pick (s # ss) i best_score best_idx =
     (if d_gt s best_score then pick ss (i + 1) s i else pick ss (i + 1) best_score best_idx)"

definition no_bigram :: "LemmaIsBinary \<Rightarrow> LemmaCandidate list \<Rightarrow> LemmaCandidate list \<Rightarrow> LemmaCandidate \<Rightarrow> bool"
  where
  "no_bigram bin prev_candidates next_candidates c \<longleftrightarrow>
     (\<forall>p \<in> set prev_candidates. lemma_is_bigram_freq bin (c_lemma p) (c_lemma c) = Inr 0)
     \<and> (\<forall>q \<in> set next_candidates. lemma_is_bigram_freq bin (c_lemma c) (c_lemma q) = Inr 0)"

text \<open>
  What the model asks of the C library's \<open>log\<close>: for a frequency above 0, the
  logarithm of \<open>freq + 1\<close>, a number from 2 on, is a number that is not negative, and
  no NaN.
\<close>

definition log_not_negative :: "externals \<Rightarrow> bool" where
  "log_not_negative X \<longleftrightarrow>
     (\<forall>freq. 0 < freq \<longrightarrow> nonneg (libm_log X (d_add (of_uint32 freq) (Finite 1))))"

subsection \<open>Scores and the selection\<close>

lemma bigram_freq_total:
  assumes "layout bin" and "bigram_index bin bs"
  shows "\<exists>f. lemma_is_bigram_freq bin w1 w2 = Inr f"
proof (cases "bigramCount bin = 0")
  case True
  then show ?thesis by (simp add: lemma_is_find_bigram_def lemma_is_bigram_freq_def)
next
  case False
  note cnt = layout_counts[OF assms(1)]
  have lb: "length bs < 2 ^ 28" using assms(2) cnt(2) by (simp add: bigram_index_def)
  have rb: "sint (bigramCount bin) - 1 = int (length bs) - 1"
  proof -
    have "unat (bigramCount bin) < 2 ^ 31" using cnt(2) by simp
    then show ?thesis using assms(2) by (simp only: sint_small bigram_index_def)
  qed
  have "\<exists>k. find_loop (\<lambda>mid. lemma_is_compare_bigram bin mid w1 (int (length w1)) w2
          (int (length w2))) 0 (int (length bs) - 1) = Inr k
        \<and> (k = - 1 \<or> 0 \<le> k \<and> k \<le> int (length bs) - 1
              \<and> cmp_pair (fst (bs ! nat k)) (w1, w2) = 0)"
    by (rule find_loop_result[where n = "int (length bs)"])
      (use compare_bigram_stored[OF assms(2) _ _ lb] lb in auto)
  then obtain k where k: "lemma_is_find_bigram bin w1 w2 = Inr k"
    "k = - 1 \<or> 0 \<le> k \<and> k < int (length bs)"
    using False unfolding lemma_is_find_bigram_def rb by force
  from k(2) show ?thesis
  proof
    assume "k = - 1"
    then show ?thesis using k(1) by (simp add: lemma_is_bigram_freq_def)
  next
    assume a: "0 \<le> k \<and> k < int (length bs)"
    then have nk: "nat k < length bs" by linarith
    then have at: "bigram_at bin (nat k) = Some (bs ! nat k)"
      using assms(2) unfolding bigram_index_def by blast
    obtain p f0 where pf: "bs ! nat k = (p, f0)" by (metis surj_pair)
    from at[unfolded pf] obtain fr where f: "bigramFreqs bin = Some fr"
      "rd_u32 (data bin) (fr + 4 * nat k) = Some f0"
      by (auto simp: bigram_at_def split: option.splits)
    have "unat (word_of_int k :: u32) = nat k"
      using a nk lb by (intro unat_word_of_int_small) auto
    then show ?thesis
      using k(1) a f by (simp add: lemma_is_bigram_freq_def non_null_def lemma_is_u32_def
          in_bounds_def)
  qed
qed

lemma prev_loop_total:
  assumes "\<And>a b. \<exists>f. lemma_is_bigram_freq bin a b = Inr f" and "log_not_negative X"
    and "nonneg s"
  shows "\<exists>s'. prev_loop X bin ps lem s = Inr s' \<and> nonneg s'
           \<and> ((\<forall>p \<in> set ps. lemma_is_bigram_freq bin (c_lemma p) lem = Inr 0) \<longrightarrow> s' = s)"
  using assms(3)
proof (induction ps arbitrary: s)
  case Nil
  then show ?case by simp
next
  case (Cons p ps)
  obtain f where f: "lemma_is_bigram_freq bin (c_lemma p) lem = Inr f" using assms(1) by blast
  define s1 where
    "s1 = (if 0 < f then d_add s (libm_log X (d_add (of_uint32 f) (Finite 1))) else s)"
  have s1: "nonneg s1"
    using Cons.prems assms(2) by (auto simp: s1_def log_not_negative_def intro: d_add_nonneg)
  from Cons.IH[OF s1] obtain s' where r: "prev_loop X bin ps lem s1 = Inr s'" "nonneg s'"
    "(\<forall>p \<in> set ps. lemma_is_bigram_freq bin (c_lemma p) lem = Inr 0) \<longrightarrow> s' = s1"
    by blast
  have "prev_loop X bin (p # ps) lem s = Inr s'" using f r(1) by (simp add: s1_def)
  moreover have "(\<forall>p \<in> set (p # ps). lemma_is_bigram_freq bin (c_lemma p) lem = Inr 0) \<longrightarrow> s' = s"
    using f r(3) by (auto simp: s1_def)
  ultimately show ?case using r(2) by blast
qed

lemma next_loop_total:
  assumes "\<And>a b. \<exists>f. lemma_is_bigram_freq bin a b = Inr f" and "log_not_negative X"
    and "nonneg s"
  shows "\<exists>s'. next_loop X bin qs lem s = Inr s' \<and> nonneg s'
           \<and> ((\<forall>q \<in> set qs. lemma_is_bigram_freq bin lem (c_lemma q) = Inr 0) \<longrightarrow> s' = s)"
  using assms(3)
proof (induction qs arbitrary: s)
  case Nil
  then show ?case by simp
next
  case (Cons q qs)
  obtain f where f: "lemma_is_bigram_freq bin lem (c_lemma q) = Inr f" using assms(1) by blast
  define s1 where
    "s1 = (if 0 < f then d_add s (libm_log X (d_add (of_uint32 f) (Finite 1))) else s)"
  have s1: "nonneg s1"
    using Cons.prems assms(2) by (auto simp: s1_def log_not_negative_def intro: d_add_nonneg)
  from Cons.IH[OF s1] obtain s' where r: "next_loop X bin qs lem s1 = Inr s'" "nonneg s'"
    "(\<forall>q \<in> set qs. lemma_is_bigram_freq bin lem (c_lemma q) = Inr 0) \<longrightarrow> s' = s1"
    by blast
  have "next_loop X bin (q # qs) lem s = Inr s'" using f r(1) by (simp add: s1_def)
  moreover have "(\<forall>q \<in> set (q # qs). lemma_is_bigram_freq bin lem (c_lemma q) = Inr 0) \<longrightarrow> s' = s"
    using f r(3) by (auto simp: s1_def)
  ultimately show ?case using r(2) by blast
qed

lemma candidate_score_total:
  assumes "\<And>a b. \<exists>f. lemma_is_bigram_freq bin a b = Inr f" and "log_not_negative X"
  shows "\<exists>s. candidate_score X bin prev nxt c = Inr s \<and> nonneg s
           \<and> (no_bigram bin prev nxt c \<longrightarrow> s = Finite 0)"
proof -
  have z: "nonneg (Finite 0)" by simp
  from prev_loop_total[OF assms z, of prev "c_lemma c"] obtain s1 where
    a: "prev_loop X bin prev (c_lemma c) (Finite 0) = Inr s1" "nonneg s1"
    "(\<forall>p \<in> set prev. lemma_is_bigram_freq bin (c_lemma p) (c_lemma c) = Inr 0) \<longrightarrow> s1 = Finite 0"
    by blast
  from next_loop_total[OF assms a(2), of nxt "c_lemma c"] obtain s2 where
    b: "next_loop X bin nxt (c_lemma c) s1 = Inr s2" "nonneg s2"
    "(\<forall>q \<in> set nxt. lemma_is_bigram_freq bin (c_lemma c) (c_lemma q) = Inr 0) \<longrightarrow> s2 = s1"
    by blast
  have "candidate_score X bin prev nxt c = Inr s2"
    using a(1) b(1) by (simp add: candidate_score_def)
  moreover have "no_bigram bin prev nxt c \<longrightarrow> s2 = Finite 0"
    using a(3) b(3) by (simp add: no_bigram_def)
  ultimately show ?thesis using b(2) by blast
qed

lemma score_loop_pick:
  assumes "length ss = length cs"
    and "\<forall>j < length cs. candidate_score X bin prev nxt (cs ! j) = Inr (ss ! j)"
  shows "score_loop X bin prev nxt cs i scores b k = Inr (scores @ ss, pick ss i b k)"
  using assms
proof (induction cs arbitrary: ss i scores b k)
  case Nil
  then show ?case by simp
next
  case (Cons c cs)
  then obtain s ss' where ss: "ss = s # ss'" by (cases ss) auto
  have s: "candidate_score X bin prev nxt c = Inr s" using Cons.prems(2) ss by auto
  have l: "length ss' = length cs" using Cons.prems(1) ss by simp
  have r: "\<forall>j < length cs. candidate_score X bin prev nxt (cs ! j) = Inr (ss' ! j)"
    using Cons.prems(2) ss by auto
  show ?case
    using Cons.IH[OF l r] by (simp add: s ss)
qed

text \<open>
  On scores that are not negative, the comparison \<open>>\<close> is a linear order, and the
  selection is the first of the greatest.
\<close>

lemma pick_spec:
  assumes "\<forall>s \<in> set ss. nonneg s" and "nonneg b"
  shows "(pick ss i b k = (b, k) \<and> (\<forall>s \<in> set ss. \<not> d_gt s b))
   \<or> (\<exists>j < length ss. pick ss i b k = (ss ! j, i + j) \<and> d_gt (ss ! j) b
         \<and> (\<forall>s \<in> set ss. \<not> d_gt s (ss ! j)) \<and> (\<forall>j' < j. d_gt (ss ! j) (ss ! j')))"
  using assms
proof (induction ss arbitrary: i b k)
  case Nil
  then show ?case by simp
next
  case (Cons s ss)
  have ns: "nonneg s" and nss: "\<forall>x \<in> set ss. nonneg x" and nb: "nonneg b"
    using Cons.prems by simp_all
  show ?case
  proof (cases "d_gt s b")
    case True
    from Cons.IH[OF nss ns, of "i + 1" i] show ?thesis
    proof
      assume a: "pick ss (i + 1) s i = (s, i) \<and> (\<forall>x \<in> set ss. \<not> d_gt x s)"
      have "0 < length (s # ss) \<and> pick (s # ss) i b k = ((s # ss) ! 0, i + 0)
         \<and> d_gt ((s # ss) ! 0) b
         \<and> (\<forall>x \<in> set (s # ss). \<not> d_gt x ((s # ss) ! 0))
         \<and> (\<forall>j' < 0. d_gt ((s # ss) ! 0) ((s # ss) ! j'))"
        using a True by (simp add: d_gt_irrefl)
      then show ?thesis by blast
    next
      assume "\<exists>j < length ss. pick ss (i + 1) s i = (ss ! j, i + 1 + j) \<and> d_gt (ss ! j) s
         \<and> (\<forall>x \<in> set ss. \<not> d_gt x (ss ! j)) \<and> (\<forall>j' < j. d_gt (ss ! j) (ss ! j'))"
      then obtain j where j: "j < length ss" "pick ss (i + 1) s i = (ss ! j, i + 1 + j)"
        "d_gt (ss ! j) s" "\<forall>x \<in> set ss. \<not> d_gt x (ss ! j)" "\<forall>j' < j. d_gt (ss ! j) (ss ! j')"
        by blast
      have gb: "d_gt (ss ! j) b" using j(3) True by (rule d_gt_trans)
      have ns': "\<not> d_gt s (ss ! j)"
      proof
        assume "d_gt s (ss ! j)"
        with j(3) have "d_gt s s" by (rule d_gt_trans[rotated])
        then show False by (simp add: d_gt_irrefl)
      qed
      have "\<forall>j' < Suc j. d_gt (ss ! j) ((s # ss) ! j')"
        using j(3,5) by (auto simp: less_Suc_eq_0_disj)
      then have "Suc j < length (s # ss) \<and> pick (s # ss) i b k = ((s # ss) ! Suc j, i + Suc j)
         \<and> d_gt ((s # ss) ! Suc j) b \<and> (\<forall>x \<in> set (s # ss). \<not> d_gt x ((s # ss) ! Suc j))
         \<and> (\<forall>j' < Suc j. d_gt ((s # ss) ! Suc j) ((s # ss) ! j'))"
        using j True gb ns' by auto
      then show ?thesis by blast
    qed
  next
    case False
    from Cons.IH[OF nss nb, of "i + 1" k] show ?thesis
    proof
      assume "pick ss (i + 1) b k = (b, k) \<and> (\<forall>x \<in> set ss. \<not> d_gt x b)"
      then show ?thesis using False by auto
    next
      assume "\<exists>j < length ss. pick ss (i + 1) b k = (ss ! j, i + 1 + j) \<and> d_gt (ss ! j) b
         \<and> (\<forall>x \<in> set ss. \<not> d_gt x (ss ! j)) \<and> (\<forall>j' < j. d_gt (ss ! j) (ss ! j'))"
      then obtain j where j: "j < length ss" "pick ss (i + 1) b k = (ss ! j, i + 1 + j)"
        "d_gt (ss ! j) b" "\<forall>x \<in> set ss. \<not> d_gt x (ss ! j)" "\<forall>j' < j. d_gt (ss ! j) (ss ! j')"
        by blast
      have gs: "d_gt (ss ! j) s" using ns nb False j(3) by (rule d_le_gt_trans)
      then have ns': "\<not> d_gt s (ss ! j)"
        using d_gt_trans[of s "ss ! j" s] d_gt_irrefl[of s] by blast
      have "\<forall>j' < Suc j. d_gt (ss ! j) ((s # ss) ! j')"
        using gs j(5) by (auto simp: less_Suc_eq_0_disj)
      then have "Suc j < length (s # ss) \<and> pick (s # ss) i b k = ((s # ss) ! Suc j, i + Suc j)
         \<and> d_gt ((s # ss) ! Suc j) b \<and> (\<forall>x \<in> set (s # ss). \<not> d_gt x ((s # ss) ! Suc j))
         \<and> (\<forall>j' < Suc j. d_gt ((s # ss) ! Suc j) ((s # ss) ! j'))"
        using j False ns' by auto
      then show ?thesis by blast
    qed
  qed
qed

text \<open>
  Claim C4. For a loaded dictionary with a readable bigram index, a C library whose
  \<open>log\<close> is not negative on the numbers from 2 on, and a non-empty list of candidates,
  the disambiguator returns a result. Every candidate has a score, a double that is not
  negative and no NaN, and exactly 0.0 when none of its bigrams with the neighbouring
  candidates has a frequency. The returned lemma and tag are those of the first
  candidate among those with the greatest score: no score is greater with the
  comparison of doubles, and the score is greater than each score before it, so that a
  later candidate wins only with a strictly greater score. \<open>by_bigram\<close> is set exactly
  when some score is above 0.0; when every score is 0.0, and so when both neighbour
  lists are empty, \<open>by_bigram\<close> is false, the confidence is 0.0 and the first candidate
  is returned.
\<close>

theorem disambiguation_selection:
  assumes "lemma_is_load_binary buf = Loaded bin" and "bigram_index bin bs"
    and "candidates \<noteq> []" and "log_not_negative X"
  shows "\<exists>r scores.
      lemma_is_disambiguate_bigram X bin candidates prev nxt = Inr (Some r)
      \<and> length scores = length candidates
      \<and> (\<forall>i < length candidates.
            candidate_score X bin prev nxt (candidates ! i) = Inr (scores ! i)
            \<and> nonneg (scores ! i)
            \<and> (no_bigram bin prev nxt (candidates ! i) \<longrightarrow> scores ! i = Finite 0))
      \<and> (\<exists>b < length candidates.
            out_lemma r = c_lemma (candidates ! b) \<and> out_pos r = c_pos (candidates ! b)
            \<and> (\<forall>i < length candidates. \<not> d_gt (scores ! i) (scores ! b))
            \<and> (\<forall>i < b. d_gt (scores ! b) (scores ! i)))
      \<and> (out_by_bigram r \<longleftrightarrow> (\<exists>i < length candidates. d_gt (scores ! i) (Finite 0)))
      \<and> ((\<forall>i < length candidates. scores ! i = Finite 0) \<longrightarrow>
            \<not> out_by_bigram r \<and> out_confidence r = Finite 0
            \<and> out_lemma r = c_lemma (hd candidates) \<and> out_pos r = c_pos (hd candidates))
      \<and> (prev = [] \<and> nxt = [] \<longrightarrow> (\<forall>i < length candidates. scores ! i = Finite 0))"
proof -
  have lay: "layout bin" using loaded_layout[OF assms(1)] by simp
  have tot: "\<exists>f. lemma_is_bigram_freq bin a b = Inr f" for a b
    by (rule bigram_freq_total[OF lay assms(2)])
  define sc where "sc c = (SOME s. candidate_score X bin prev nxt c = Inr s)" for c
  have sc: "candidate_score X bin prev nxt c = Inr (sc c) \<and> nonneg (sc c)
      \<and> (no_bigram bin prev nxt c \<longrightarrow> sc c = Finite 0)" for c
  proof -
    from candidate_score_total[of bin X prev nxt c] tot assms(4) obtain s where
      s: "candidate_score X bin prev nxt c = Inr s" "nonneg s"
      "no_bigram bin prev nxt c \<longrightarrow> s = Finite 0"
      by blast
    have "candidate_score X bin prev nxt c = Inr (sc c)"
      unfolding sc_def by (rule someI[of _ s]) (rule s(1))
    with s show ?thesis by simp
  qed
  define ss where "ss = map sc candidates"
  let ?n = "length candidates"
  have len: "length ss = ?n" by (simp add: ss_def)
  have n0: "0 < ?n" using assms(3) by simp
  have each: "\<forall>i < ?n. candidate_score X bin prev nxt (candidates ! i) = Inr (ss ! i)
            \<and> nonneg (ss ! i) \<and> (no_bigram bin prev nxt (candidates ! i) \<longrightarrow> ss ! i = Finite 0)"
    using sc by (simp add: ss_def)
  have loop: "score_loop X bin prev nxt candidates 0 [] (Finite 0) 0
      = Inr (ss, pick ss 0 (Finite 0) 0)"
    using score_loop_pick[OF len, of X bin prev nxt 0 "[]" "Finite 0" 0] each by simp
  have nonneg: "\<forall>s \<in> set ss. nonneg s" using sc by (auto simp: ss_def)
  have z: "nonneg (Finite 0)" by simp
  have empty: "\<forall>i < ?n. ss ! i = Finite 0" if "prev = [] \<and> nxt = []"
    using that each by (simp add: no_bigram_def)
  from pick_spec[OF nonneg z, of 0 0] show ?thesis
  proof
    assume a: "pick ss 0 (Finite 0) 0 = (Finite 0, 0) \<and> (\<forall>s \<in> set ss. \<not> d_gt s (Finite 0))"
    have zero: "\<forall>i < ?n. ss ! i = Finite 0"
    proof (intro allI impI)
      fix i assume "i < ?n"
      then have "ss ! i \<in> set ss" using len by simp
      then show "ss ! i = Finite 0" using a nonneg by (simp add: nonneg_zero)
    qed
    define r where "r = \<lparr>out_lemma = c_lemma (candidates ! 0), out_pos = c_pos (candidates ! 0),
        out_confidence = Finite 0, out_by_bigram = False\<rparr>"
    have res: "lemma_is_disambiguate_bigram X bin candidates prev nxt = Inr (Some r)"
      using n0 a by (simp add: lemma_is_disambiguate_bigram_def loop r_def)
    have sel: "\<exists>b < ?n. out_lemma r = c_lemma (candidates ! b) \<and> out_pos r = c_pos (candidates ! b)
            \<and> (\<forall>i < ?n. \<not> d_gt (ss ! i) (ss ! b)) \<and> (\<forall>i < b. d_gt (ss ! b) (ss ! i))"
      using n0 zero by (intro exI[of _ 0]) (simp add: r_def)
    have byb: "out_by_bigram r \<longleftrightarrow> (\<exists>i < ?n. d_gt (ss ! i) (Finite 0))"
      using zero by (auto simp: r_def)
    have fst: "\<not> out_by_bigram r \<and> out_confidence r = Finite 0
            \<and> out_lemma r = c_lemma (hd candidates) \<and> out_pos r = c_pos (hd candidates)"
      using assms(3) by (simp add: r_def hd_conv_nth)
    show ?thesis
      using res len each sel byb fst empty by blast
  next
    assume "\<exists>j < length ss. pick ss 0 (Finite 0) 0 = (ss ! j, 0 + j) \<and> d_gt (ss ! j) (Finite 0)
         \<and> (\<forall>s \<in> set ss. \<not> d_gt s (ss ! j)) \<and> (\<forall>j' < j. d_gt (ss ! j) (ss ! j'))"
    then obtain j where j: "j < ?n" "pick ss 0 (Finite 0) 0 = (ss ! j, j)"
      "d_gt (ss ! j) (Finite 0)"
      "\<forall>s \<in> set ss. \<not> d_gt s (ss ! j)" "\<forall>j' < j. d_gt (ss ! j) (ss ! j')"
      using len by auto
    define conf where "conf = (let total = exp_total X ss
        in if d_gt total (Finite 0) then d_div (libm_exp X (ss ! j)) total else Finite (1 / 2))"
    define r where "r = \<lparr>out_lemma = c_lemma (candidates ! j), out_pos = c_pos (candidates ! j),
        out_confidence = conf, out_by_bigram = True\<rparr>"
    have res: "lemma_is_disambiguate_bigram X bin candidates prev nxt = Inr (Some r)"
      using n0 j(2,3) by (simp add: lemma_is_disambiguate_bigram_def loop r_def conf_def Let_def)
    have mx: "\<forall>i < ?n. \<not> d_gt (ss ! i) (ss ! j)" using j(4) len by simp
    have sel: "\<exists>b < ?n. out_lemma r = c_lemma (candidates ! b) \<and> out_pos r = c_pos (candidates ! b)
            \<and> (\<forall>i < ?n. \<not> d_gt (ss ! i) (ss ! b)) \<and> (\<forall>i < b. d_gt (ss ! b) (ss ! i))"
      using j(1,5) mx by (intro exI[of _ j]) (simp add: r_def)
    have byb: "out_by_bigram r \<longleftrightarrow> (\<exists>i < ?n. d_gt (ss ! i) (Finite 0))"
      using j(1,3) by (auto simp: r_def)
    have fst: "(\<forall>i < ?n. ss ! i = Finite 0) \<longrightarrow> \<not> out_by_bigram r \<and> out_confidence r = Finite 0
            \<and> out_lemma r = c_lemma (hd candidates) \<and> out_pos r = c_pos (hd candidates)"
      using j(1,3) by auto
    show ?thesis
      using res len each sel byb fst empty by blast
  qed
qed

definition fer_candidates :: "LemmaCandidate list" where
  "fer_candidates =
     [\<lparr>c_lemma = bytes_of ''fara'', c_pos = POS_SO, c_caseCode = 0, c_genderCode = 0,
       c_numberCode = 0\<rparr>,
      \<lparr>c_lemma = bytes_of ''far'', c_pos = POS_NO, c_caseCode = 0, c_genderCode = 0,
       c_numberCode = 0\<rparr>]"

definition var_candidates :: "LemmaCandidate list" where
  "var_candidates =
     [\<lparr>c_lemma = bytes_of ''vera'', c_pos = POS_SO, c_caseCode = 0, c_genderCode = 0,
       c_numberCode = 0\<rparr>]"

lemmas eval_bigram =
  lemma_is_bigram_freq_def lemma_is_find_bigram_def find_loop.simps INT_MAX_def Let_def
  lemma_is_compare_bigram_def non_null_def compare_view_def eval_read



lemma example_freqs:
  "lemma_is_bigram_freq example_bin (bytes_of ''fara'') (bytes_of ''vera'') = Inr 5"
  "lemma_is_bigram_freq example_bin (bytes_of ''far'') (bytes_of ''vera'') = Inr 0"
  by (simp_all add: eval_bigram example_bin_def example_file_def bytes_of_def)

lemma example_log: "log_not_negative example_externals"
  unfolding log_not_negative_def
proof (intro allI impI)
  fix freq :: u32
  assume "0 < freq"
  have "(0::real) \<le> real (unat freq)" by (rule of_nat_0_le_iff)
  then have le: "(2::real) ^ 0 \<le> real (unat freq) + 1"
    unfolding power_0 by linarith
  have "d_add (of_uint32 freq) (Finite 1) = fl (real (unat freq) + 1)"
    by (simp add: of_uint32_def)
  moreover from fl_ge_pow2[OF le] have "nonneg (rounded_log (fl (real (unat freq) + 1)))"
  proof
    assume "fl (real (unat freq) + 1) = PosInf"
    then show ?thesis by (simp add: rounded_log_def)
  next
    assume "\<exists>z. fl (real (unat freq) + 1) = Finite z \<and> 2 ^ 0 \<le> z"
    then obtain z where z: "fl (real (unat freq) + 1) = Finite z" "1 \<le> z" by auto
    then have "0 \<le> ln z" by simp
    then have "nonneg (fl (ln z))" by (rule fl_nonneg)
    then show ?thesis using z by (simp add: rounded_log_def)
  qed
  ultimately show "nonneg (libm_log example_externals (d_add (of_uint32 freq) (Finite 1)))"
    by (simp add: example_externals_def)
qed

lemma rounded_log_6: "d_gt (d_add (Finite 0) (rounded_log (fl 6))) (Finite 0)"
proof -
  have "(2::real) ^ 2 \<le> 6" by simp
  from fl_ge_pow2[OF this] show ?thesis
  proof
    assume "fl 6 = PosInf"
    then show ?thesis by (simp add: rounded_log_def)
  next
    assume "\<exists>z. fl 6 = Finite z \<and> 2 ^ 2 \<le> z"
    then obtain z where z: "fl 6 = Finite z" "4 \<le> z" by auto
    have "exp 1 \<le> z" using exp_le z(2) by linarith
    then have "1 \<le> ln z" using z(2) by (simp add: ln_ge_iff)
    from fl_ge_1[OF this] show ?thesis
    proof
      assume "fl (ln z) = PosInf"
      then show ?thesis using z by (simp add: rounded_log_def)
    next
      assume "\<exists>w. fl (ln z) = Finite w \<and> 1 \<le> w"
      then obtain w where w: "fl (ln z) = Finite w" "1 \<le> w" by auto
      from fl_ge_1[OF w(2)] have "d_gt (fl w) (Finite 0)" by auto
      then show ?thesis using z w by (simp add: rounded_log_def)
    qed
  qed
qed

lemma example_scores:
  "\<exists>s. candidate_score example_externals example_bin [] var_candidates (fer_candidates ! 0)
          = Inr s \<and> d_gt s (Finite 0)"
  "no_bigram example_bin [] var_candidates (fer_candidates ! 1)"
proof -
  have "candidate_score example_externals example_bin [] var_candidates (fer_candidates ! 0)
      = Inr (d_add (Finite 0) (rounded_log (fl 6)))"
    by (simp add: candidate_score_def fer_candidates_def var_candidates_def example_freqs
        of_uint32_def example_externals_def)
  then show "\<exists>s. candidate_score example_externals example_bin [] var_candidates
      (fer_candidates ! 0) = Inr s \<and> d_gt s (Finite 0)"
    using rounded_log_6 by simp
  show "no_bigram example_bin [] var_candidates (fer_candidates ! 1)"
    by (simp add: no_bigram_def fer_candidates_def var_candidates_def example_freqs)
qed

theorem disambiguation_selection_witness:
  "lemma_is_load_binary example_file = Loaded example_bin
   \<and> bigram_index example_bin example_bigrams \<and> fer_candidates \<noteq> []
   \<and> log_not_negative example_externals
   \<and> (\<exists>r. lemma_is_disambiguate_bigram example_externals example_bin fer_candidates []
            var_candidates = Inr (Some r)
          \<and> out_lemma r = bytes_of ''fara'' \<and> out_pos r = POS_SO \<and> out_by_bigram r)
   \<and> (\<exists>r. lemma_is_disambiguate_bigram example_externals example_bin fer_candidates [] []
            = Inr (Some r)
          \<and> out_lemma r = bytes_of ''fara'' \<and> out_pos r = POS_SO \<and> \<not> out_by_bigram r
          \<and> out_confidence r = Finite 0)"
proof -
  have ne: "fer_candidates \<noteq> []" by (simp add: fer_candidates_def)
  have len: "length fer_candidates = 2" by (simp add: fer_candidates_def)
  note T = disambiguation_selection[OF example_file_loads example_bigram_index ne example_log]
  have a: "\<exists>r. lemma_is_disambiguate_bigram example_externals example_bin fer_candidates []
            var_candidates = Inr (Some r)
          \<and> out_lemma r = bytes_of ''fara'' \<and> out_pos r = POS_SO \<and> out_by_bigram r"
  proof -
    from T[of "[]" var_candidates] obtain r scores b where
      r: "lemma_is_disambiguate_bigram example_externals example_bin fer_candidates []
            var_candidates = Inr (Some r)"
      and s: "\<forall>i < 2. candidate_score example_externals example_bin [] var_candidates
                (fer_candidates ! i) = Inr (scores ! i)
              \<and> (no_bigram example_bin [] var_candidates (fer_candidates ! i)
                   \<longrightarrow> scores ! i = Finite 0)"
      and b: "b < 2" "out_lemma r = c_lemma (fer_candidates ! b)"
        "out_pos r = c_pos (fer_candidates ! b)" "\<forall>i < b. d_gt (scores ! b) (scores ! i)"
      and y: "out_by_bigram r \<longleftrightarrow> (\<exists>i < 2. d_gt (scores ! i) (Finite 0))"
      unfolding len by blast
    have s0: "d_gt (scores ! 0) (Finite 0)" and s1: "scores ! 1 = Finite 0"
      using s example_scores by auto
    have "b = 0"
    proof (rule ccontr)
      assume "b \<noteq> 0"
      then have "b = 1" using b(1) by simp
      then have "d_gt (scores ! 1) (scores ! 0)" using b(4) by simp
      then have "d_gt (Finite 0) (Finite 0)" using s0 s1 d_gt_trans by metis
      then show False by simp
    qed
    moreover have "out_by_bigram r"
    proof -
      have "(0::nat) < 2 \<and> d_gt (scores ! 0) (Finite 0)" using s0 by simp
      then have "\<exists>i < 2. d_gt (scores ! i) (Finite 0)" by blast
      with y show ?thesis by simp
    qed
    ultimately show ?thesis using r b(2,3) by (auto simp: fer_candidates_def)
  qed
  have c: "\<exists>r. lemma_is_disambiguate_bigram example_externals example_bin fer_candidates [] []
            = Inr (Some r)
          \<and> out_lemma r = bytes_of ''fara'' \<and> out_pos r = POS_SO \<and> \<not> out_by_bigram r
          \<and> out_confidence r = Finite 0"
  proof -
    from T[of "[]" "[]"] obtain r scores where
      r: "lemma_is_disambiguate_bigram example_externals example_bin fer_candidates [] []
            = Inr (Some r)"
      and z: "(\<forall>i < length fer_candidates. scores ! i = Finite 0) \<longrightarrow>
            \<not> out_by_bigram r \<and> out_confidence r = Finite 0
            \<and> out_lemma r = c_lemma (hd fer_candidates) \<and> out_pos r = c_pos (hd fer_candidates)"
      and e: "\<forall>i < length fer_candidates. scores ! i = Finite 0"
      by blast
    from z e r show ?thesis by (auto simp: fer_candidates_def)
  qed
  show ?thesis using example_file_loads example_bigram_index ne example_log a c by blast
qed

section \<open>Tokenizer\<close>















subsection \<open>The tokenizer in terms of codepoints\<close>

















subsection \<open>The examples of the specification\<close>












section \<open>Query builder\<close>

text \<open>
  \<open>icelandic_fts_query\<close> after the dictionary is loaded. The first loop resolves the
  candidates of every token. The arrays for the tokens and their lemmas and the buffer of
  the query grow with the SQL argument, and their allocations are taken to succeed.
\<close>

fun token_data_loop ::
  "externals \<Rightarrow> LemmaIsBinary \<Rightarrow> bytes list \<Rightarrow> LemmaCandidate list list res" where
  "token_data_loop X bin [] = Inr []"
| "token_data_loop X bin (t # ts) =
     seq (lemma_is_get_candidates X bin t) (\<lambda>candidates.
     seq (token_data_loop X bin ts) (\<lambda>token_data. Inr (candidates # token_data)))"






subsection \<open>The format of the query\<close>










lemma token_data_loop_empty: "token_data_loop X bin [] = Inr []"
  by simp



subsection \<open>Queries over the example dictionary\<close>













end
